theory Spec2Isabelle
  imports Complex_Main "HOL-Library.Word" "HOL-Library.Multiset"
begin

unbundle bit_operations_syntax

section \<open>Byte buffers, typed arrays and DataView access\<close>

text \<open>
  An ArrayBuffer (and the Uint8Array over it) is a list of bytes. JavaScript numbers that
  hold integers are \<open>int\<close>; a number that may be NaN (a lookup in an object literal that
  misses) is an \<open>int option\<close>. Strings are lists of code units below 256. Every access
  of a DataView or typed array outside the buffer raises a RangeError, which is a value of
  the error type here; \<open>Error msg\<close> is \<open>throw new Error(msg)\<close>.
\<close>

type_synonym byte = "8 word"

text \<open>
  A message built by a template literal is kept as its pieces: the literal text and the
  numbers interpolated into it.
\<close>

datatype msgPart = Text string | Num real

datatype error = RangeError | Error "msgPart list"

fun andThen :: "error + 'a \<Rightarrow> ('a \<Rightarrow> error + 'b) \<Rightarrow> error + 'b" where
  "andThen (Inl e) f = Inl e"
| "andThen (Inr x) f = f x"

definition setUint8 :: "byte list \<Rightarrow> int \<Rightarrow> int \<Rightarrow> error + byte list" where
  "setUint8 buf off v =
     (if 0 \<le> off \<and> off + 1 \<le> int (length buf)
      then Inr (buf[nat off := word_of_int v])
      else Inl RangeError)"

definition setUint16 :: "byte list \<Rightarrow> int \<Rightarrow> int \<Rightarrow> bool \<Rightarrow> error + byte list" where
  "setUint16 buf off v littleEndian =
     (if 0 \<le> off \<and> off + 2 \<le> int (length buf)
      then Inr (if littleEndian
                then buf[nat off := word_of_int v, nat off + 1 := word_of_int (v div 256)]
                else buf[nat off := word_of_int (v div 256), nat off + 1 := word_of_int v])
      else Inl RangeError)"

definition setUint32 :: "byte list \<Rightarrow> int \<Rightarrow> int \<Rightarrow> bool \<Rightarrow> error + byte list" where
  "setUint32 buf off v littleEndian =
     (if 0 \<le> off \<and> off + 4 \<le> int (length buf)
      then Inr (if littleEndian
                then buf[nat off := word_of_int v,
                         nat off + 1 := word_of_int (v div 256),
                         nat off + 2 := word_of_int (v div 65536),
                         nat off + 3 := word_of_int (v div 16777216)]
                else buf[nat off := word_of_int (v div 16777216),
                         nat off + 1 := word_of_int (v div 65536),
                         nat off + 2 := word_of_int (v div 256),
                         nat off + 3 := word_of_int v])
      else Inl RangeError)"

definition getUint8 :: "byte list \<Rightarrow> int \<Rightarrow> error + nat" where
  "getUint8 buf off =
     (if 0 \<le> off \<and> off + 1 \<le> int (length buf)
      then Inr (unat (buf ! nat off))
      else Inl RangeError)"

definition getUint16 :: "byte list \<Rightarrow> int \<Rightarrow> bool \<Rightarrow> error + nat" where
  "getUint16 buf off littleEndian =
     (if 0 \<le> off \<and> off + 2 \<le> int (length buf)
      then Inr (if littleEndian
                then unat (buf ! nat off) + 256 * unat (buf ! (nat off + 1))
                else 256 * unat (buf ! nat off) + unat (buf ! (nat off + 1)))
      else Inl RangeError)"

definition getUint32 :: "byte list \<Rightarrow> int \<Rightarrow> bool \<Rightarrow> error + nat" where
  "getUint32 buf off littleEndian =
     (if 0 \<le> off \<and> off + 4 \<le> int (length buf)
      then Inr (if littleEndian
                then unat (buf ! nat off) + 256 * unat (buf ! (nat off + 1))
                     + 65536 * unat (buf ! (nat off + 2)) + 16777216 * unat (buf ! (nat off + 3))
                else 16777216 * unat (buf ! nat off) + 65536 * unat (buf ! (nat off + 1))
                     + 256 * unat (buf ! (nat off + 2)) + unat (buf ! (nat off + 3)))
      else Inl RangeError)"

definition getInt16 :: "byte list \<Rightarrow> int \<Rightarrow> bool \<Rightarrow> error + int" where
  "getInt16 buf off littleEndian =
     (case getUint16 buf off littleEndian of
        Inl e \<Rightarrow> Inl e
      | Inr u \<Rightarrow> Inr (if u < 32768 then int u else int u - 65536))"

text \<open>
  \<open>target.set(source, offset)\<close> of a typed array: a RangeError when the source does not
  fit, else the source's elements are stored one after the other from \<open>offset\<close>.
\<close>

fun writeBytes :: "byte list \<Rightarrow> nat \<Rightarrow> byte list \<Rightarrow> byte list" where
  "writeBytes buf off [] = buf"
| "writeBytes buf off (b # bs) = writeBytes (buf[off := b]) (Suc off) bs"

definition bytesSet :: "byte list \<Rightarrow> byte list \<Rightarrow> int \<Rightarrow> error + byte list" where
  "bytesSet buf src off =
     (if 0 \<le> off \<and> off + int (length src) \<le> int (length buf)
      then Inr (writeBytes buf (nat off) src)
      else Inl RangeError)"

text \<open>\<open>bytes.fill(value, start, end)\<close>: the range is clamped to the array.\<close>

definition bytesFill :: "byte list \<Rightarrow> byte \<Rightarrow> nat \<Rightarrow> nat \<Rightarrow> byte list" where
  "bytesFill buf v start end =
     (let s = min start (length buf); e = min end (length buf)
      in if s < e then take s buf @ replicate (e - s) v @ drop e buf else buf)"

text \<open>
  \<open>new TextEncoder().encode(s)\<close> is UTF-8: one byte for a code unit below 128, two bytes
  for the others of this model's range.
\<close>

definition utf8 :: "char \<Rightarrow> byte list" where
  "utf8 c =
     (let n = (of_char c :: nat)
      in if n < 128 then [of_nat n] else [of_nat (192 + n div 64), of_nat (128 + n mod 64)])"

definition TextEncoder_encode :: "string \<Rightarrow> byte list" where
  "TextEncoder_encode s = concat (map utf8 s)"

definition fromCharCode :: "nat \<Rightarrow> char" where
  "fromCharCode n = char_of n"

text \<open>\<open>String.prototype.trim\<close>: white space and line terminators below 256.\<close>

definition isWhiteSpace :: "char \<Rightarrow> bool" where
  "isWhiteSpace c = ((of_char c :: nat) \<in> {9, 10, 11, 12, 13, 32, 160})"

definition trim :: "string \<Rightarrow> string" where
  "trim s = rev (dropWhile isWhiteSpace (rev (dropWhile isWhiteSpace s)))"

text \<open>Number-to-string conversion of an integer, as a template literal does it.\<close>

fun digitsOf :: "nat \<Rightarrow> string" where
  "digitsOf n =
     (if n < 10 then [''0123456789'' ! n]
      else digitsOf (n div 10) @ [''0123456789'' ! (n mod 10)])"

definition numberToString :: "int \<Rightarrow> string" where
  "numberToString i = (if i < 0 then CHR ''-'' # digitsOf (nat (- i)) else digitsOf (nat i))"

section \<open>SP-1200 file format constants\<close>

abbreviation (input) SP1200_MAGIC :: "'a::numeral" where "SP1200_MAGIC \<equiv> 4608"
abbreviation (input) SP1200_SAMPLE_RATE :: "'a::numeral" where "SP1200_SAMPLE_RATE \<equiv> 26040"
abbreviation (input) SP1200_DISK_SIZE :: "'a::numeral" where "SP1200_DISK_SIZE \<equiv> 824576"
abbreviation (input) SP1200_PAD_TABLE_OFFSET :: "'a::numeral" where "SP1200_PAD_TABLE_OFFSET \<equiv> 2048"
abbreviation (input) SP1200_PAD_ENTRY_SIZE :: "'a::numeral" where "SP1200_PAD_ENTRY_SIZE \<equiv> 32"
abbreviation (input) SP1200_SAMPLE_DATA_OFFSET :: "'a::numeral" where "SP1200_SAMPLE_DATA_OFFSET \<equiv> 4096"
abbreviation (input) SP1200_SAMPLE_ALIGN :: "'a::numeral" where "SP1200_SAMPLE_ALIGN \<equiv> 256"
abbreviation (input) SP1200_END_MARKER :: "'a::numeral" where "SP1200_END_MARKER \<equiv> 32768"
abbreviation (input) SP1200_MAX_PADS :: "'a::numeral" where "SP1200_MAX_PADS \<equiv> 32"
abbreviation (input) SP1200_VOLUME_MAX :: "'a::numeral" where "SP1200_VOLUME_MAX \<equiv> 255"
abbreviation (input) SP1200_BLOCK_SIZE :: "'a::numeral" where "SP1200_BLOCK_SIZE \<equiv> 256"

section \<open>Samples and pad assignments\<close>

record SP1200SampleMetadata =
  tuning :: "int option"
  volume :: "int option"
  loop :: "bool option"
  loopStart :: "int option"
  loopEnd :: "int option"
  truncStart :: "int option"
  truncEnd :: "int option"

text \<open>
  The bank of a parsed sample is an element of the array \<open>['A','B','C','D']\<close> taken by
  index, which is \<open>undefined\<close> (\<open>None\<close>) past its end.
\<close>

record SP1200Sample =
  name :: string
  bank :: "string option"
  padNumber :: int
  data :: "byte list"
  sampleRate :: nat
  bitsPerSample :: nat
  length_words :: nat
  metadata :: "SP1200SampleMetadata option"

record SP1200Disk =
  samples :: "SP1200Sample list"
  sequences :: "unit list"

section \<open>Single-sample files and the disk parser\<close>

definition createSP1200SampleFile :: "SP1200Sample \<Rightarrow> error + byte list" where
  "createSP1200SampleFile sample =
     (let buffer = replicate SP1200_DISK_SIZE (0 :: byte);
          bytes = bytesFill buffer 0 0 (length buffer);
          padEntryOffset = SP1200_PAD_TABLE_OFFSET;
          nameBytes = TextEncoder_encode (take 12 (name sample));
          numWords = int (length (data sample) div 2)
      in andThen (setUint16 bytes 0 SP1200_MAGIC True) (\<lambda>b1.
         andThen (setUint16 b1 2 1 True) (\<lambda>b2.
         andThen (setUint16 b2 4 0 True) (\<lambda>b3.
         andThen (bytesSet b3 nameBytes padEntryOffset) (\<lambda>b4.
         andThen (setUint32 b4 (padEntryOffset + 12) numWords True) (\<lambda>b5.
         andThen (setUint32 b5 (padEntryOffset + 16) SP1200_SAMPLE_DATA_OFFSET True) (\<lambda>b6.
         bytesSet b6 (data sample) SP1200_SAMPLE_DATA_OFFSET)))))))"

text \<open>
  The loop that reads a name: at most \<open>n\<close> bytes from \<open>off\<close>, stopping at the first
  zero byte.
\<close>

fun readName :: "byte list \<Rightarrow> int \<Rightarrow> nat \<Rightarrow> error + string" where
  "readName view off 0 = Inr []"
| "readName view off (Suc n) =
     andThen (getUint8 view off) (\<lambda>c.
       if c = 0 then Inr []
       else andThen (readName view (off + 1) n) (\<lambda>rest. Inr (fromCharCode c # rest)))"

text \<open>The loop that copies \<open>n\<close> bytes from \<open>off\<close> into a fresh Uint8Array.\<close>

fun readData :: "byte list \<Rightarrow> int \<Rightarrow> nat \<Rightarrow> error + byte list" where
  "readData view off 0 = Inr []"
| "readData view off (Suc n) =
     andThen (getUint8 view off) (\<lambda>c.
     andThen (readData view (off + 1) n) (\<lambda>rest. Inr (of_nat c # rest)))"

definition parseSP1200File :: "byte list \<Rightarrow> error + SP1200Sample" where
  "parseSP1200File fileData =
     andThen (getUint16 fileData 0 True) (\<lambda>magic.
       if magic \<noteq> SP1200_MAGIC then Inl (Error [Text ''Invalid SP-1200 file: wrong magic number''])
       else
         let padEntryOffset = SP1200_PAD_TABLE_OFFSET
         in andThen (readName fileData padEntryOffset 12) (\<lambda>nm.
            andThen (getUint32 fileData (padEntryOffset + 12) True) (\<lambda>numWords.
            andThen (getUint32 fileData (padEntryOffset + 16) True) (\<lambda>sampleOffset.
            andThen (readData fileData (int sampleOffset) (numWords * 2)) (\<lambda>sampleData.
            Inr \<lparr>name = trim nm, bank = Some ''A'', padNumber = 1, data = sampleData,
                 sampleRate = SP1200_SAMPLE_RATE, bitsPerSample = 12,
                 length_words = numWords, metadata = None\<rparr>)))))"

text \<open>The body of the loop over the pad table in parseSP1200Disk, for entry \<open>i\<close>.\<close>

definition parsePadEntry :: "byte list \<Rightarrow> nat \<Rightarrow> error + SP1200Sample" where
  "parsePadEntry view i =
     (let padEntryOffset = SP1200_PAD_TABLE_OFFSET + int i * SP1200_PAD_ENTRY_SIZE
      in andThen (readName view padEntryOffset 12) (\<lambda>nm.
         andThen (getUint32 view (padEntryOffset + 12) True) (\<lambda>numWords.
         andThen (getUint32 view (padEntryOffset + 16) True) (\<lambda>sampleOffset.
         andThen (getUint8 view (padEntryOffset + 20)) (\<lambda>bankIndex.
         andThen (getUint8 view (padEntryOffset + 21)) (\<lambda>padByte.
         andThen (readData view (int sampleOffset) (numWords * 2)) (\<lambda>sampleData.
         Inr \<lparr>name = trim nm,
              bank = (if bankIndex < 4 then Some ([''A'', ''B'', ''C'', ''D''] ! bankIndex) else None),
              padNumber = int padByte + 1, data = sampleData,
              sampleRate = SP1200_SAMPLE_RATE, bitsPerSample = 12,
              length_words = numWords, metadata = None\<rparr>)))))))"

text \<open>The loop \<open>for (let i = 0; i < numSamples; i++)\<close>, from entry \<open>i\<close> with \<open>n\<close> to go.\<close>

fun parseSamples :: "byte list \<Rightarrow> nat \<Rightarrow> nat \<Rightarrow> error + SP1200Sample list" where
  "parseSamples view i 0 = Inr []"
| "parseSamples view i (Suc n) =
     andThen (parsePadEntry view i) (\<lambda>s.
     andThen (parseSamples view (i + 1) n) (\<lambda>rest. Inr (s # rest)))"

definition parseSP1200Disk :: "byte list \<Rightarrow> error + SP1200Disk" where
  "parseSP1200Disk diskData =
     andThen (getUint16 diskData 0 True) (\<lambda>magic.
       if magic \<noteq> SP1200_MAGIC then Inl (Error [Text ''Invalid SP-1200 disk: wrong magic number''])
       else
         andThen (getUint16 diskData 2 True) (\<lambda>numSamples.
         andThen (getUint16 diskData 4 True) (\<lambda>numSequences.
         andThen (parseSamples diskData 0 numSamples) (\<lambda>smps.
         Inr \<lparr>samples = smps, sequences = []\<rparr>))))"

section \<open>Pad assignments\<close>

definition isValidBank :: "string \<Rightarrow> bool" where
  "isValidBank bnk = (bnk = ''A'' \<or> bnk = ''B'' \<or> bnk = ''C'' \<or> bnk = ''D'')"

definition isValidPad :: "int \<Rightarrow> bool" where
  "isValidPad pad = (pad \<ge> 1 \<and> pad \<le> 8)"

record SP1200PadAssignment =
  bank :: string
  padNumber :: int
  name :: string
  data :: "byte list"
  metadata :: "SP1200SampleMetadata option"

section \<open>The disk builder\<close>

text \<open>
  The builder's only field is a \<open>Map\<close> from key strings to assignments. A JavaScript Map
  keeps insertion order and \<open>set\<close> on a present key keeps that key's place, so the map is
  an association list with these two operations.
\<close>

fun mapSet :: "('k \<times> 'v) list \<Rightarrow> 'k \<Rightarrow> 'v \<Rightarrow> ('k \<times> 'v) list" where
  "mapSet [] k v = [(k, v)]"
| "mapSet ((k', v') # m) k v = (if k' = k then (k, v) # m else (k', v') # mapSet m k v)"

definition mapDelete :: "('k \<times> 'v) list \<Rightarrow> 'k \<Rightarrow> ('k \<times> 'v) list" where
  "mapDelete m k = filter (\<lambda>kv. fst kv \<noteq> k) m"

record SP1200DiskBuilderImpl =
  padAssignments :: "(string \<times> SP1200PadAssignment) list"

definition getPadKey :: "string \<Rightarrow> int \<Rightarrow> string" where
  "getPadKey bnk pad = bnk @ numberToString pad"

definition bankOffset :: "string \<Rightarrow> int option" where
  "bankOffset bnk =
     (if bnk = ''A'' then Some 0 else if bnk = ''B'' then Some 8
      else if bnk = ''C'' then Some 16 else if bnk = ''D'' then Some 24 else None)"

definition getPadIndex :: "string \<Rightarrow> int \<Rightarrow> int option" where
  "getPadIndex bnk pad = map_option (\<lambda>off. off + (pad - 1)) (bankOffset bnk)"

definition addSample ::
  "SP1200DiskBuilderImpl \<Rightarrow> SP1200PadAssignment \<Rightarrow> error + SP1200DiskBuilderImpl" where
  "addSample this assignment =
     (if \<not> isValidBank (bank assignment) then Inl (Error [Text ''Invalid bank. Must be A, B, C, or D''])
      else if \<not> isValidPad (padNumber assignment)
      then Inl (Error [Text ''Invalid pad number. Must be between 1 and 8''])
      else
        let key = getPadKey (bank assignment) (padNumber assignment)
        in Inr (this\<lparr>padAssignments :=
                  mapSet (padAssignments this) key
                    (assignment\<lparr>name := take 12 (name assignment)\<rparr>)\<rparr>))"

definition removeSample :: "SP1200DiskBuilderImpl \<Rightarrow> string \<Rightarrow> int \<Rightarrow> SP1200DiskBuilderImpl" where
  "removeSample this bnk pad =
     (let key = getPadKey bnk pad
      in this\<lparr>padAssignments := mapDelete (padAssignments this) key\<rparr>)"

definition getSample :: "SP1200DiskBuilderImpl \<Rightarrow> string \<Rightarrow> int \<Rightarrow> SP1200PadAssignment option" where
  "getSample this bnk pad =
     (let key = getPadKey bnk pad in map_of (padAssignments this) key)"

definition getPadAssignments :: "SP1200DiskBuilderImpl \<Rightarrow> SP1200PadAssignment list" where
  "getPadAssignments this = map snd (padAssignments this)"

definition clear :: "SP1200DiskBuilderImpl \<Rightarrow> SP1200DiskBuilderImpl" where
  "clear this = this\<lparr>padAssignments := []\<rparr>"

text \<open>
  \<open>a.localeCompare(b)\<close> on the bank letters: the collation order of the capital letters is
  their code order.
\<close>

definition localeCompare :: "string \<Rightarrow> string \<Rightarrow> int" where
  "localeCompare a b =
     (let ka = map (of_char :: char \<Rightarrow> nat) a; kb = map (of_char :: char \<Rightarrow> nat) b
      in if ka = kb then 0 else if (ka, kb) \<in> lexord {(x, y). x < y} then - 1 else 1)"

definition compareAssignments :: "SP1200PadAssignment \<Rightarrow> SP1200PadAssignment \<Rightarrow> int" where
  "compareAssignments a b =
     (let bankCompare = localeCompare (bank a) (bank b)
      in if bankCompare \<noteq> 0 then bankCompare else padNumber a - padNumber b)"

text \<open>\<open>Array.prototype.sort\<close> with a comparator is a stable sort.\<close>

fun insertBy :: "('a \<Rightarrow> 'a \<Rightarrow> int) \<Rightarrow> 'a \<Rightarrow> 'a list \<Rightarrow> 'a list" where
  "insertBy cmp x [] = [x]"
| "insertBy cmp x (y # ys) = (if cmp x y \<le> 0 then x # y # ys else y # insertBy cmp x ys)"

definition sortBy :: "('a \<Rightarrow> 'a \<Rightarrow> int) \<Rightarrow> 'a list \<Rightarrow> 'a list" where
  "sortBy cmp xs = foldr (insertBy cmp) xs []"

text \<open>
  \<open>(x + SP1200_SAMPLE_ALIGN - 1) & ~(SP1200_SAMPLE_ALIGN - 1)\<close>: the bitwise operators work
  on the 32-bit two's complement value of their operands.
\<close>

definition alignUp :: "int \<Rightarrow> int" where
  "alignUp x = signed_take_bit 31 (x + SP1200_SAMPLE_ALIGN - 1) AND NOT (SP1200_SAMPLE_ALIGN - 1)"

text \<open>\<open>x || d\<close> on an optional number: \<open>undefined\<close> and 0 are falsy.\<close>

definition orElse :: "int option \<Rightarrow> int \<Rightarrow> int" where
  "orElse x d = (case x of None \<Rightarrow> d | Some v \<Rightarrow> if v = 0 then d else v)"

text \<open>
  An offset that is NaN (the pad index of a bank outside the lookup table) is converted to
  the index 0 by the DataView and typed array methods.
\<close>

definition entryAt :: "int option \<Rightarrow> int \<Rightarrow> int" where
  "entryAt padEntryOffset k = (case padEntryOffset of None \<Rightarrow> 0 | Some p \<Rightarrow> p + k)"

definition bankIndexOf :: "string \<Rightarrow> int option" where
  "bankIndexOf bnk =
     (if bnk = ''A'' then Some 0 else if bnk = ''B'' then Some 1
      else if bnk = ''C'' then Some 2 else if bnk = ''D'' then Some 3 else None)"

text \<open>The metadata bytes of a pad entry (step 5 of the loop body of createDiskImage).\<close>

definition writeMetadata ::
  "byte list \<Rightarrow> int option \<Rightarrow> SP1200SampleMetadata option \<Rightarrow> error + byte list" where
  "writeMetadata bytes padEntryOffset md =
     (case md of
        Some m \<Rightarrow>
          (let tuningValue = (case tuning m of None \<Rightarrow> 0 | Some t \<Rightarrow> t)
           in andThen (setUint8 bytes (entryAt padEntryOffset 24) ((tuningValue + 12) AND 255)) (\<lambda>b1.
              andThen (setUint8 b1 (entryAt padEntryOffset 25) (orElse (volume m) SP1200_VOLUME_MAX)) (\<lambda>b2.
              andThen (setUint8 b2 (entryAt padEntryOffset 26) (if loop m = Some True then 1 else 0)) (\<lambda>b3.
              andThen (setUint16 b3 (entryAt padEntryOffset 27) (orElse (loopStart m) 0) True) (\<lambda>b4.
              andThen (setUint16 b4 (entryAt padEntryOffset 29) (orElse (loopEnd m) 0) True) (\<lambda>b5.
              andThen (setUint16 b5 (entryAt padEntryOffset 31) (orElse (truncStart m) 0) True) (\<lambda>b6.
              setUint16 b6 (entryAt padEntryOffset 33) (orElse (truncEnd m) 0) True)))))))
      | None \<Rightarrow> setUint8 bytes (entryAt padEntryOffset 25) SP1200_VOLUME_MAX)"

text \<open>
  The pad entry of one assignment (steps 1 to 5 of the loop body), written with the data
  cursor as it stands when the assignment is reached.
\<close>

definition writePadEntry :: "byte list \<Rightarrow> int \<Rightarrow> SP1200PadAssignment \<Rightarrow> error + byte list" where
  "writePadEntry bytes currentDataOffset sample =
     (let padIndex = getPadIndex (bank sample) (padNumber sample);
          padEntryOffset = map_option (\<lambda>i. SP1200_PAD_TABLE_OFFSET + i * SP1200_PAD_ENTRY_SIZE) padIndex;
          nameBytes = TextEncoder_encode (take 12 (name sample));
          numWords = int (length (data sample) div 2);
          bankIndex = (case bankIndexOf (bank sample) of None \<Rightarrow> 0 | Some i \<Rightarrow> i)
      in andThen (bytesSet bytes nameBytes (entryAt padEntryOffset 0)) (\<lambda>b1.
         andThen (setUint32 b1 (entryAt padEntryOffset 12) numWords True) (\<lambda>b2.
         andThen (setUint32 b2 (entryAt padEntryOffset 16) currentDataOffset True) (\<lambda>b3.
         andThen (setUint8 b3 (entryAt padEntryOffset 20) bankIndex) (\<lambda>b4.
         andThen (setUint8 b4 (entryAt padEntryOffset 21) (padNumber sample - 1)) (\<lambda>b5.
         writeMetadata b5 padEntryOffset (metadata sample)))))))"

text \<open>
  The sample data of one assignment: alignment, copy, end marker and the cursor for the
  next assignment.
\<close>

definition writeSampleData ::
  "byte list \<Rightarrow> int \<Rightarrow> SP1200PadAssignment \<Rightarrow> error + (byte list \<times> int)" where
  "writeSampleData bytes currentDataOffset sample =
     (let cursor = (if currentDataOffset mod SP1200_SAMPLE_ALIGN \<noteq> 0
                    then alignUp currentDataOffset else currentDataOffset)
      in andThen (bytesSet bytes (data sample) cursor) (\<lambda>b1.
         let endMarkerOffset = cursor + int (length (data sample))
         in andThen (setUint16 b1 endMarkerOffset SP1200_END_MARKER True) (\<lambda>b2.
            Inr (b2, alignUp endMarkerOffset))))"

text \<open>The loop \<open>for (const sample of sortedAssignments)\<close>.\<close>

fun layoutSamples ::
  "byte list \<Rightarrow> int \<Rightarrow> SP1200PadAssignment list \<Rightarrow> error + (byte list \<times> int)" where
  "layoutSamples bytes currentDataOffset [] = Inr (bytes, currentDataOffset)"
| "layoutSamples bytes currentDataOffset (sample # rest) =
     andThen (writePadEntry bytes currentDataOffset sample) (\<lambda>b1.
     andThen (writeSampleData b1 currentDataOffset sample) (\<lambda>(b2, next).
     layoutSamples b2 next rest))"

text \<open>
  createDiskImage returns its result together with the builder as it is after the call.
\<close>

definition createDiskImage ::
  "SP1200DiskBuilderImpl \<Rightarrow> (error + byte list) \<times> SP1200DiskBuilderImpl" where
  "createDiskImage this =
     (let buffer = replicate SP1200_DISK_SIZE (0 :: byte);
          bytes = bytesFill buffer 0 0 (length buffer);
          numSamples = int (length (padAssignments this));
          sortedAssignments = sortBy compareAssignments (getPadAssignments this)
      in (andThen (setUint16 bytes 0 SP1200_MAGIC True) (\<lambda>b1.
          andThen (setUint16 b1 2 numSamples True) (\<lambda>b2.
          andThen (setUint16 b2 4 0 True) (\<lambda>b3.
          let b4 = bytesFill b3 0 SP1200_PAD_TABLE_OFFSET
                     (SP1200_PAD_TABLE_OFFSET + SP1200_MAX_PADS * SP1200_PAD_ENTRY_SIZE)
          in andThen (layoutSamples b4 SP1200_SAMPLE_DATA_OFFSET sortedAssignments)
               (\<lambda>(b5, currentDataOffset).
                  if currentDataOffset > SP1200_DISK_SIZE
                  then Inl (Error [Text ''Disk image exceeds maximum size''])
                  else Inr b5)))),
          this))"

section \<open>WAV ingestion\<close>

record WavDescriptor =
  audioFormat :: nat
  channels :: nat
  sampleRate :: nat
  bitsPerSample :: nat
  dataOffset :: nat
  dataLength :: nat

text \<open>\<open>String.fromCharCode\<close> of the four bytes at \<open>off\<close>.\<close>

definition readFourCC :: "byte list \<Rightarrow> int \<Rightarrow> error + string" where
  "readFourCC view off =
     andThen (getUint8 view off) (\<lambda>c0.
     andThen (getUint8 view (off + 1)) (\<lambda>c1.
     andThen (getUint8 view (off + 2)) (\<lambda>c2.
     andThen (getUint8 view (off + 3)) (\<lambda>c3.
     Inr (map fromCharCode [c0, c1, c2, c3])))))"

text \<open>
  The variables of the chunk loop of parseWavHeader, apart from the offset: \<open>foundFmt\<close>
  and the descriptor being filled in.
\<close>

type_synonym scanState = "bool \<times> WavDescriptor"

text \<open>
  One pass through the body of the chunk loop, up to the chunk size and the updated
  variables; the loop adds the size to the offset.
\<close>

definition scanChunk :: "byte list \<Rightarrow> nat \<Rightarrow> scanState \<Rightarrow> error + (nat \<times> scanState)" where
  "scanChunk buffer off st =
     andThen (readFourCC buffer (int off)) (\<lambda>chunkId.
     andThen (getUint32 buffer (int off + 4) True) (\<lambda>chunkSize.
       if chunkId = ''fmt '' then
         andThen (getUint16 buffer (int off + 8) True) (\<lambda>fmt.
         andThen (getUint16 buffer (int off + 10) True) (\<lambda>chans.
         andThen (getUint32 buffer (int off + 12) True) (\<lambda>rate.
         andThen (if off + 22 + 2 \<le> length buffer
                  then getUint16 buffer (int off + 22) True else Inr 16) (\<lambda>bits.
         Inr (chunkSize,
              (True, (snd st)\<lparr>audioFormat := fmt, channels := chans,
                               sampleRate := rate, bitsPerSample := bits\<rparr>))))))
       else if chunkId = ''data'' then
         Inr (chunkSize, (fst st, (snd st)\<lparr>dataOffset := off + 8, dataLength := chunkSize\<rparr>))
       else Inr (chunkSize, st)))"

function scanChunks :: "byte list \<Rightarrow> nat \<Rightarrow> scanState \<Rightarrow> error + scanState" where
  "scanChunks buffer off st =
     (if int off < int (length buffer) - 8
      then (case scanChunk buffer off st of
              Inl e \<Rightarrow> Inl e
            | Inr (chunkSize, st') \<Rightarrow>
                scanChunks buffer
                  (off + 8 + chunkSize + (if chunkSize mod 2 \<noteq> 0 then 1 else 0)) st')
      else Inr st)"
  by pat_completeness auto
termination
  by (relation "measure (\<lambda>(buffer, off, st). length buffer - off)") auto

definition parseWavHeader :: "byte list \<Rightarrow> error + WavDescriptor" where
  "parseWavHeader buffer =
     (if length buffer < 44 then Inl (Error [Text ''Invalid WAV: file too small''])
      else
        andThen (readFourCC buffer 0) (\<lambda>riff.
          if riff \<noteq> ''RIFF'' then Inl (Error [Text ''Invalid WAV: RIFF header not found''])
          else
            andThen (readFourCC buffer 8) (\<lambda>wave.
              if wave \<noteq> ''WAVE'' then Inl (Error [Text ''Invalid WAV: WAVE format not found''])
              else
                (case scanChunks buffer 12
                        (False, \<lparr>audioFormat = 0, channels = 0, sampleRate = 0,
                                  bitsPerSample = 0, dataOffset = 0, dataLength = 0\<rparr>) of
                   Inl e \<Rightarrow> Inl (Error [Text ''Invalid WAV: error parsing header''])
                 | Inr (foundFmt, wav) \<Rightarrow>
                     if \<not> foundFmt then Inl (Error [Text ''Invalid WAV: fmt chunk not found''])
                     else if dataOffset wav = 0
                     then Inl (Error [Text ''Invalid WAV: data chunk not found''])
                     else Inr wav))))"

record Validation =
  isValid :: bool
  error :: "msgPart list option"

definition validateWavFormat :: "WavDescriptor \<Rightarrow> Validation" where
  "validateWavFormat wav =
     (if audioFormat wav \<noteq> 1 then
        \<lparr>isValid = False,
         error = Some [Text ''Unsupported audio format: '', Num (real (audioFormat wav)),
           Text ''. Only PCM (type 1) is supported. This may be a compressed format like MP3 or AAC.'']\<rparr>
      else if sampleRate wav < 8000 \<or> sampleRate wav > 192000 then
        \<lparr>isValid = False,
         error = Some [Text ''Invalid sample rate: '', Num (real (sampleRate wav)),
           Text '' Hz. Must be between 8kHz and 192kHz.'']\<rparr>
      else if bitsPerSample wav \<notin> set [8, 16, 24] then
        \<lparr>isValid = False,
         error = Some [Text ''Unsupported bits per sample: '', Num (real (bitsPerSample wav)),
           Text ''. Only 8, 16, and 24-bit are supported.'']\<rparr>
      else if channels wav < 1 \<or> channels wav > 2 then
        \<lparr>isValid = False,
         error = Some [Text ''Unsupported channel count: '', Num (real (channels wav)),
           Text ''. Only mono and stereo are supported.'']\<rparr>
      else
        let minSamples = (100 :: real);
            bytesPerSample = real (bitsPerSample wav) / 8;
            numSamples = real (dataLength wav) / bytesPerSample / real (channels wav)
        in if numSamples < minSamples then
             \<lparr>isValid = False,
              error = Some [Text ''Sample too short: '', Num numSamples, Text '' samples. Minimum is '',
                Num minSamples, Text '' samples.'']\<rparr>
           else \<lparr>isValid = True, error = None\<rparr>)"

section \<open>Conversion to the SND format\<close>

text \<open>
  The decoded audio: \<open>getChannelData(c)\<close> is \<open>channelData ! c\<close>, every channel of the same
  length, the Float32 values as reals.
\<close>

record AudioBuffer =
  numberOfChannels :: nat
  sampleRate :: nat
  channelData :: "real list list"

text \<open>
  Storing a number into an Int16Array: the fraction is dropped, the integer is taken
  modulo \<open>2^16\<close> as a signed value.
\<close>

definition toInt16 :: "real \<Rightarrow> int" where
  "toInt16 x = signed_take_bit 15 (if x < 0 then \<lceil>x\<rceil> else \<lfloor>x\<rfloor>)"

text \<open>
  The bytes of an Int16Array's buffer: each element in the byte order of the platform.
\<close>

definition int16Bytes :: "bool \<Rightarrow> int \<Rightarrow> byte list" where
  "int16Bytes platformLittleEndian v =
     (if platformLittleEndian then [word_of_int v, word_of_int (v div 256)]
      else [word_of_int (v div 256), word_of_int v])"

definition int16ArrayBuffer :: "bool \<Rightarrow> int list \<Rightarrow> byte list" where
  "int16ArrayBuffer platformLittleEndian xs = concat (map (int16Bytes platformLittleEndian) xs)"

text \<open>
  \<open>name.replace(/\.[^/.]+$/, '')\<close>: a final extension, a dot followed to the end by one or
  more characters that are neither a slash nor a dot, is removed.
\<close>

definition stripExtension :: "string \<Rightarrow> string" where
  "stripExtension nm =
     (let ext = rev (takeWhile (\<lambda>c. c \<noteq> CHR ''.'') (rev nm))
      in if CHR ''.'' \<in> set nm \<and> ext \<noteq> [] \<and> CHR ''/'' \<notin> set ext
         then take (length nm - length ext - 1) nm else nm)"

definition padEnd :: "string \<Rightarrow> nat \<Rightarrow> char \<Rightarrow> string" where
  "padEnd s n c = s @ replicate (n - length s) c"

text \<open>The loop that stores the 12 characters of the file name from byte 3.\<close>

fun writeFilename :: "byte list \<Rightarrow> string \<Rightarrow> int \<Rightarrow> error + byte list" where
  "writeFilename view [] off = Inr view"
| "writeFilename view (c # cs) off =
     andThen (setUint8 view off (int (of_char c))) (\<lambda>v. writeFilename v cs (off + 1))"

text \<open>The loop over the 7 loop records, \<open>n\<close> of them from number \<open>i\<close>.\<close>

fun writeLoopRecords :: "byte list \<Rightarrow> nat \<Rightarrow> nat \<Rightarrow> error + byte list" where
  "writeLoopRecords view i 0 = Inr view"
| "writeLoopRecords view i (Suc n) =
     (let off = 38 + int i * 12
      in andThen (setUint32 view off 0 False) (\<lambda>v1.
         andThen (setUint16 v1 (off + 4) 0 False) (\<lambda>v2.
         andThen (setUint32 v2 (off + 6) 0 False) (\<lambda>v3.
         andThen (setUint16 v3 (off + 10) 0 False) (\<lambda>v4.
         writeLoopRecords v4 (i + 1) n)))))"

text \<open>The loop that clears bytes \<open>i\<close> to 191.\<close>

fun writeReserved :: "byte list \<Rightarrow> int \<Rightarrow> nat \<Rightarrow> error + byte list" where
  "writeReserved view i 0 = Inr view"
| "writeReserved view i (Suc n) = andThen (setUint8 view i 0) (\<lambda>v. writeReserved v (i + 1) n)"

definition sndHeader :: "AudioBuffer \<Rightarrow> string \<Rightarrow> nat \<Rightarrow> error + byte list" where
  "sndHeader audioBuffer fileName pcmLength =
     (let header = replicate 192 (0 :: byte);
          filename = padEnd (take 12 (stripExtension fileName)) 12 CHR '' ''
      in andThen (setUint8 header 0 3) (\<lambda>h1.
         andThen (setUint8 h1 1 (if sampleRate audioBuffer = 44100 then 1 else 0)) (\<lambda>h2.
         andThen (setUint8 h2 2 60) (\<lambda>h3.
         andThen (writeFilename h3 (take 12 filename) 3) (\<lambda>h4.
         andThen (setUint8 h4 15 128) (\<lambda>h5.
         andThen (setUint8 h5 16 0) (\<lambda>h6.
         andThen (setUint8 h6 17 0) (\<lambda>h7.
         andThen (setUint8 h7 18 0) (\<lambda>h8.
         andThen (setUint8 h8 19 2) (\<lambda>h9.
         andThen (setUint8 h9 20 0) (\<lambda>h10.
         andThen (setUint8 h10 21 0) (\<lambda>h11.
         andThen (setUint8 h11 22 0) (\<lambda>h12.
         andThen (setUint8 h12 23 8) (\<lambda>h13.
         andThen (setUint8 h13 24 2) (\<lambda>h14.
         andThen (setUint8 h14 25 0) (\<lambda>h15.
         andThen (setUint32 h15 26 (int pcmLength) False) (\<lambda>h16.
         andThen (setUint32 h16 30 0 False) (\<lambda>h17.
         andThen (setUint32 h17 34 (int pcmLength) False) (\<lambda>h18.
         andThen (writeLoopRecords h18 0 7) (\<lambda>h19.
         andThen (setUint8 h19 182 0) (\<lambda>h20.
         andThen (setUint8 h20 183 0) (\<lambda>h21.
         andThen (setUint8 h21 184 255) (\<lambda>h22.
         andThen (setUint8 h22 185 255) (\<lambda>h23.
         andThen (setUint16 h23 186 (int (sampleRate audioBuffer)) False) (\<lambda>h24.
         andThen (setUint8 h24 188 0) (\<lambda>h25.
         writeReserved h25 189 3))))))))))))))))))))))))))"

text \<open>
  convertToSnd on the decoded audio. \<open>fround\<close> is the rounding of a number stored into a
  Float32Array, \<open>platformLittleEndian\<close> the byte order of the host's typed arrays.
  \<open>monoData\<close> and \<open>pcmData\<close> are the function's local arrays of these names.
\<close>

definition monoData :: "(real \<Rightarrow> real) \<Rightarrow> AudioBuffer \<Rightarrow> real list" where
  "monoData fround audioBuffer =
     (if numberOfChannels audioBuffer = 2
      then (let left = channelData audioBuffer ! 0;
                right = channelData audioBuffer ! 1
            in map (\<lambda>i. fround ((left ! i + right ! i) / 2)) [0..<length left])
      else channelData audioBuffer ! 0)"

definition pcmData :: "(real \<Rightarrow> real) \<Rightarrow> AudioBuffer \<Rightarrow> int list" where
  "pcmData fround audioBuffer =
     map (\<lambda>x. let s = max (- 1) (min 1 x)
              in toInt16 (if s < 0 then s * 32768 else s * 32767))
       (monoData fround audioBuffer)"

definition convertToSnd ::
  "(real \<Rightarrow> real) \<Rightarrow> bool \<Rightarrow> AudioBuffer \<Rightarrow> string \<Rightarrow> error + byte list" where
  "convertToSnd fround platformLittleEndian audioBuffer fileName =
     andThen (sndHeader audioBuffer fileName (length (pcmData fround audioBuffer))) (\<lambda>header.
       Inr (header @ int16ArrayBuffer platformLittleEndian (pcmData fround audioBuffer)))"

section \<open>Reachable builder states\<close>

text \<open>
  The well-formed pad maps: no key twice, and every entry stored under the key of its own
  bank and pad, both valid. \<open>reachable\<close> are the states that the public operations
  produce from a new builder.
\<close>

definition wellFormed :: "SP1200DiskBuilderImpl \<Rightarrow> bool" where
  "wellFormed this \<longleftrightarrow>
     distinct (map fst (padAssignments this)) \<and>
     (\<forall>(k, a) \<in> set (padAssignments this).
        k = getPadKey (bank a) (padNumber a) \<and> isValidBank (bank a) \<and> isValidPad (padNumber a))"

inductive reachable :: "SP1200DiskBuilderImpl \<Rightarrow> bool" where
  initial: "reachable \<lparr>padAssignments = []\<rparr>"
| added: "reachable this \<Longrightarrow> addSample this a = Inr this' \<Longrightarrow> reachable this'"
| removed: "reachable this \<Longrightarrow> reachable (removeSample this b p)"
| cleared: "reachable this \<Longrightarrow> reachable (clear this)"
| built: "reachable this \<Longrightarrow> reachable (snd (createDiskImage this))"

text \<open>The table slot of an assignment: its pad index.\<close>

definition slot :: "SP1200PadAssignment \<Rightarrow> int" where
  "slot a = (case getPadIndex (bank a) (padNumber a) of None \<Rightarrow> 0 | Some i \<Rightarrow> i)"

definition validAssignment :: "SP1200PadAssignment \<Rightarrow> bool" where
  "validAssignment a \<longleftrightarrow> isValidBank (bank a) \<and> isValidPad (padNumber a)"

section \<open>Concrete inputs\<close>

text \<open>The inputs at which the theorems below are instantiated or evaluated.\<close>

definition c9_assignment :: SP1200PadAssignment where
  "c9_assignment =
     \<lparr>bank = ''B'', padNumber = 1, name = ''KICKDRUM_LONG_NAME'', data = [1, 2], metadata = None\<rparr>"

definition c6_first :: SP1200PadAssignment where
  "c6_first = \<lparr>bank = ''A'', padNumber = 1, name = ''KICK'', data = [1, 2], metadata = None\<rparr>"

definition c6_second :: SP1200PadAssignment where
  "c6_second = \<lparr>bank = ''B'', padNumber = 3, name = ''SNARE'', data = [3, 4, 5, 6], metadata = None\<rparr>"

definition c5_assignment :: SP1200PadAssignment where
  "c5_assignment =
     \<lparr>bank = ''A'', padNumber = 1, name = ''LONG'', data = replicate 820481 0, metadata = None\<rparr>"

definition c2_first :: SP1200PadAssignment where
  "c2_first = \<lparr>bank = ''A'', padNumber = 1, name = ''KICK'', data = replicate 256 1, metadata = None\<rparr>"

definition c2_second :: SP1200PadAssignment where
  "c2_second = \<lparr>bank = ''A'', padNumber = 2, name = ''SNARE'', data = [170, 187], metadata = None\<rparr>"

definition c1_assignment :: SP1200PadAssignment where
  "c1_assignment = \<lparr>bank = ''B'', padNumber = 1, name = ''KICK'', data = [1, 2], metadata = None\<rparr>"

definition c7_sample :: SP1200Sample where
  "c7_sample =
     \<lparr>SP1200Sample.name = ''KICK '', SP1200Sample.bank = Some ''B'', SP1200Sample.padNumber = 5,
      SP1200Sample.data = [1, 2], SP1200Sample.sampleRate = 26040,
      SP1200Sample.bitsPerSample = 12, length_words = 1, SP1200Sample.metadata = None\<rparr>"

definition c7_clean :: SP1200Sample where
  "c7_clean =
     \<lparr>SP1200Sample.name = ''SNARE'', SP1200Sample.bank = Some ''B'', SP1200Sample.padNumber = 5,
      SP1200Sample.data = [1, 2, 3, 4], SP1200Sample.sampleRate = 44100,
      SP1200Sample.bitsPerSample = 16, length_words = 7, SP1200Sample.metadata = None\<rparr>"

definition silent_wav :: "byte list" where
  "silent_wav =
     [82, 73, 70, 70, 172, 88, 1, 0, 87, 65, 86, 69,
      102, 109, 116, 32, 16, 0, 0, 0, 1, 0, 1, 0, 68, 172, 0, 0, 136, 88, 1, 0, 2, 0, 16, 0,
      100, 97, 116, 97, 136, 88, 1, 0] @ replicate 88200 0"

definition c3_audio :: AudioBuffer where
  "c3_audio = \<lparr>numberOfChannels = 1, sampleRate = 44100, channelData = [[1]]\<rparr>"

section \<open>Lemmas on the pad map\<close>

declare digitsOf.simps [simp del]
declare scanChunks.simps [simp del]

lemma map_of_mapSet: "map_of (mapSet m k v) = (map_of m)(k \<mapsto> v)"
  by (induction m k v rule: mapSet.induct) (auto simp: fun_eq_iff)

lemma keys_mapSet: "set (map fst (mapSet m k v)) = insert k (set (map fst m))"
  by (induction m k v rule: mapSet.induct) auto

lemma distinct_mapSet: "distinct (map fst m) \<Longrightarrow> distinct (map fst (mapSet m k v))"
proof (induction m k v rule: mapSet.induct)
  case (1 k v)
  then show ?case by simp
next
  case (2 k' v' m k v)
  then show ?case using keys_mapSet[of m k v] by auto
qed

lemma set_mapSet: "set (mapSet m k v) \<subseteq> insert (k, v) (set m)"
  by (induction m k v rule: mapSet.induct) auto

lemma distinct_mapDelete: "distinct (map fst m) \<Longrightarrow> distinct (map fst (mapDelete m k))"
  by (simp add: mapDelete_def distinct_map_filter)

lemma set_mapDelete: "set (mapDelete m k) \<subseteq> set m"
  by (auto simp: mapDelete_def)

lemma numberToString_pad:
  "isValidPad p \<Longrightarrow> numberToString p = [''0123456789'' ! nat p]"
proof -
  assume "isValidPad p"
  then have "0 \<le> p" "nat p < 10" by (auto simp: isValidPad_def)
  then show ?thesis by (simp add: numberToString_def digitsOf.simps[of "nat p"])
qed

lemma digit_inject:
  assumes "isValidPad p" "isValidPad q" "''0123456789'' ! nat p = ''0123456789'' ! nat q"
  shows "p = q"
proof -
  from assms(1) have "p \<in> {1,2,3,4,5,6,7,8}" by (auto simp: isValidPad_def)
  moreover from assms(2) have "q \<in> {1,2,3,4,5,6,7,8}" by (auto simp: isValidPad_def)
  ultimately show ?thesis using assms(3) by auto
qed

lemma getPadKey_inject:
  assumes "isValidPad p" "isValidPad q"
  shows "getPadKey b p = getPadKey c q \<longleftrightarrow> b = c \<and> p = q"
  using assms digit_inject[of p q] by (auto simp: getPadKey_def numberToString_pad)

lemma createDiskImage_state: "snd (createDiskImage this) = this"
  by (simp add: createDiskImage_def Let_def)

lemma wellFormed_addSample:
  assumes "wellFormed this" "addSample this a = Inr this'"
  shows "wellFormed this'"
proof -
  from assms(2) have v: "isValidBank (bank a)" "isValidPad (padNumber a)"
    and eq: "padAssignments this' =
             mapSet (padAssignments this) (getPadKey (bank a) (padNumber a)) (a\<lparr>name := take 12 (name a)\<rparr>)"
    by (auto simp: addSample_def Let_def split: if_splits)
  show ?thesis
    unfolding wellFormed_def eq
    using assms(1) v set_mapSet[of "padAssignments this" "getPadKey (bank a) (padNumber a)" "a\<lparr>name := take 12 (name a)\<rparr>"]
    by (auto simp: wellFormed_def distinct_mapSet)
qed

lemma wellFormed_removeSample: "wellFormed this \<Longrightarrow> wellFormed (removeSample this b p)"
  using set_mapDelete[of "padAssignments this" "getPadKey b p"]
  by (auto simp: wellFormed_def removeSample_def Let_def distinct_mapDelete)

lemma reachable_wellFormed: "reachable this \<Longrightarrow> wellFormed this"
proof (induction rule: reachable.induct)
  case initial
  show ?case by (simp add: wellFormed_def)
next
  case (added this a this')
  then show ?case by (blast intro: wellFormed_addSample)
next
  case (removed this b p)
  then show ?case by (simp add: wellFormed_removeSample)
next
  case (cleared this)
  then show ?case by (simp add: wellFormed_def clear_def)
next
  case (built this)
  then show ?case by (simp add: createDiskImage_state)
qed

lemma wellFormed_unique:
  assumes "wellFormed this"
  shows "distinct (map (\<lambda>a. (bank a, padNumber a)) (getPadAssignments this))"
proof -
  let ?m = "padAssignments this"
  have d: "distinct (map fst ?m)" using assms by (simp add: wellFormed_def)
  have k: "\<forall>x \<in> set ?m. fst x = getPadKey (bank (snd x)) (padNumber (snd x))"
    using assms by (auto simp: wellFormed_def)
  then have "map fst ?m = map (\<lambda>x. getPadKey (bank (snd x)) (padNumber (snd x))) ?m"
    by (simp only: map_eq_conv)
  then have e: "map fst ?m = map (\<lambda>a. getPadKey (bank a) (padNumber a)) (map snd ?m)"
    by (simp add: o_def)
  have "distinct (map (\<lambda>a. getPadKey (bank a) (padNumber a)) (map snd ?m))"
    using d unfolding e .
  then have "distinct (map (\<lambda>(b, p). getPadKey b p) (map (\<lambda>a. (bank a, padNumber a)) (map snd ?m)))"
    by (simp add: o_def)
  then have "distinct (map (\<lambda>a. (bank a, padNumber a)) (map snd ?m))"
    by (rule distinct_map[THEN iffD1, THEN conjunct1])
  then show ?thesis by (simp add: getPadAssignments_def)
qed

section \<open>addSample\<close>

text \<open>
  Claim C9. addSample throws exactly when the bank is not one of A, B, C, D or the pad
  number is outside 1..8. Otherwise it stores the assignment, its name cut to 12
  characters, under the key of its bank and pad, leaves every other key as it was, and in
  every state reached through the builder's operations no key and no (bank, pad) pair
  occurs twice.
\<close>

theorem addSample_validates_and_replaces:
  "((\<exists>e. addSample this a = Inl e) \<longleftrightarrow>
      (bank a \<notin> {''A'', ''B'', ''C'', ''D''} \<or> padNumber a \<notin> {1..8})) \<and>
   (\<forall>this'. addSample this a = Inr this' \<longrightarrow>
      getSample this' (bank a) (padNumber a) = Some (a\<lparr>name := take 12 (name a)\<rparr>) \<and>
      (\<forall>k. k \<noteq> getPadKey (bank a) (padNumber a) \<longrightarrow>
           map_of (padAssignments this') k = map_of (padAssignments this) k) \<and>
      (reachable this \<longrightarrow>
         reachable this' \<and>
         distinct (map fst (padAssignments this')) \<and>
         distinct (map (\<lambda>x. (bank x, padNumber x)) (getPadAssignments this'))))"
proof -
  have 1: "(\<exists>e. addSample this a = Inl e) \<longleftrightarrow>
      (bank a \<notin> {''A'', ''B'', ''C'', ''D''} \<or> padNumber a \<notin> {1..8})"
    by (auto simp: addSample_def isValidBank_def isValidPad_def Let_def)
  have 2: "getSample this' (bank a) (padNumber a) = Some (a\<lparr>name := take 12 (name a)\<rparr>) \<and>
      (\<forall>k. k \<noteq> getPadKey (bank a) (padNumber a) \<longrightarrow>
           map_of (padAssignments this') k = map_of (padAssignments this) k)"
    if "addSample this a = Inr this'" for this'
    using that by (auto simp: addSample_def getSample_def Let_def map_of_mapSet split: if_splits)
  have 3: "reachable this' \<and> distinct (map fst (padAssignments this')) \<and>
         distinct (map (\<lambda>x. (bank x, padNumber x)) (getPadAssignments this'))"
    if "addSample this a = Inr this'" "reachable this" for this'
  proof -
    have r: "reachable this'" using that by (blast intro: reachable.added)
    then have "wellFormed this'" by (rule reachable_wellFormed)
    then show ?thesis using r wellFormed_unique by (auto simp: wellFormed_def)
  qed
  show ?thesis using 1 2 3 by blast
qed

theorem addSample_validates_and_replaces_witness:
  "addSample \<lparr>padAssignments = []\<rparr> c9_assignment =
     Inr \<lparr>padAssignments = [(''B1'', c9_assignment\<lparr>name := ''KICKDRUM_LON''\<rparr>)]\<rparr> \<and>
   reachable \<lparr>padAssignments = []\<rparr> \<and>
   getSample \<lparr>padAssignments = [(''B1'', c9_assignment\<lparr>name := ''KICKDRUM_LON''\<rparr>)]\<rparr> ''B'' 1 =
     Some (c9_assignment\<lparr>name := ''KICKDRUM_LON''\<rparr>) \<and>
   reachable \<lparr>padAssignments = [(''B1'', c9_assignment\<lparr>name := ''KICKDRUM_LON''\<rparr>)]\<rparr>"
proof -
  have a: "addSample \<lparr>padAssignments = []\<rparr> c9_assignment =
     Inr \<lparr>padAssignments = [(''B1'', c9_assignment\<lparr>name := ''KICKDRUM_LON''\<rparr>)]\<rparr>"
    by (simp add: addSample_def c9_assignment_def isValidBank_def isValidPad_def getPadKey_def
        numberToString_def digitsOf.simps[of "Suc 0"])
  show ?thesis
    using addSample_validates_and_replaces[of "\<lparr>padAssignments = []\<rparr>" c9_assignment]
      reachable.initial a
    by (simp add: c9_assignment_def)
qed

section \<open>The sorted order of createDiskImage\<close>

lemma localeCompare_banks:
  "localeCompare ''A'' ''A'' = 0" "localeCompare ''A'' ''B'' = -1" "localeCompare ''A'' ''C'' = -1" "localeCompare ''A'' ''D'' = -1"
  "localeCompare ''B'' ''A'' = 1" "localeCompare ''B'' ''B'' = 0" "localeCompare ''B'' ''C'' = -1" "localeCompare ''B'' ''D'' = -1"
  "localeCompare ''C'' ''A'' = 1" "localeCompare ''C'' ''B'' = 1" "localeCompare ''C'' ''C'' = 0" "localeCompare ''C'' ''D'' = -1"
  "localeCompare ''D'' ''A'' = 1" "localeCompare ''D'' ''B'' = 1" "localeCompare ''D'' ''C'' = 1" "localeCompare ''D'' ''D'' = 0"
  by (simp_all add: localeCompare_def)

lemma compareAssignments_slot:
  assumes "validAssignment a" "validAssignment b"
  shows "compareAssignments a b \<le> 0 \<longleftrightarrow> slot a \<le> slot b"
  using assms
  by (auto simp: validAssignment_def isValidBank_def isValidPad_def compareAssignments_def
      slot_def getPadIndex_def bankOffset_def localeCompare_banks Let_def)

lemma slot_inject:
  assumes "validAssignment a" "validAssignment b" "slot a = slot b"
  shows "bank a = bank b \<and> padNumber a = padNumber b"
  using assms
  by (auto simp: validAssignment_def isValidBank_def isValidPad_def
      slot_def getPadIndex_def bankOffset_def)

lemma insertBy_insort:
  assumes "validAssignment x" "\<forall>y \<in> set ys. validAssignment y"
  shows "insertBy compareAssignments x ys = insort_key slot x ys"
  using assms by (induction ys) (auto simp: compareAssignments_slot)

lemma set_insertBy: "set (insertBy cmp x ys) = insert x (set ys)"
  by (induction ys) auto

lemma sortBy_sort_key:
  assumes "\<forall>x \<in> set xs. validAssignment x"
  shows "sortBy compareAssignments xs = sort_key slot xs"
  using assms
proof (induction xs)
  case Nil
  show ?case by (simp add: sortBy_def)
next
  case (Cons x xs)
  then have "sortBy compareAssignments xs = sort_key slot xs" by simp
  moreover have "\<forall>y \<in> set (sort_key slot xs). validAssignment y" using Cons.prems by simp
  ultimately show ?case using Cons.prems
    by (simp add: sortBy_def insertBy_insort)
qed

lemma wellFormed_valid:
  "wellFormed this \<Longrightarrow> \<forall>a \<in> set (getPadAssignments this). validAssignment a"
  by (auto simp: wellFormed_def getPadAssignments_def validAssignment_def)

lemma wellFormed_slot_inj:
  assumes "wellFormed this"
  shows "inj_on slot (set (getPadAssignments this))"
proof (rule inj_onI)
  fix a b
  assume a: "a \<in> set (getPadAssignments this)" and b: "b \<in> set (getPadAssignments this)"
    and s: "slot a = slot b"
  have "validAssignment a" "validAssignment b" using wellFormed_valid[OF assms] a b by auto
  then have "(\<lambda>x. (bank x, padNumber x)) a = (\<lambda>x. (bank x, padNumber x)) b"
    using slot_inject[OF _ _ s] by simp
  moreover have "inj_on (\<lambda>x. (bank x, padNumber x)) (set (getPadAssignments this))"
    using wellFormed_unique[OF assms] by (simp add: distinct_map)
  ultimately show "a = b" using a b by (rule_tac inj_onD)
qed

lemma wellFormed_getSample:
  assumes "wellFormed this" "(k, a) \<in> set (padAssignments this)"
  shows "getSample this (bank a) (padNumber a) = Some a"
proof -
  have "k = getPadKey (bank a) (padNumber a)" using assms by (auto simp: wellFormed_def)
  moreover have "map_of (padAssignments this) k = Some a"
    using assms by (simp add: wellFormed_def)
  ultimately show ?thesis by (simp add: getSample_def)
qed

lemma same_samples_same_entries:
  assumes "wellFormed this1" "wellFormed this2"
    and "\<forall>b p. getSample this1 b p = getSample this2 b p"
  shows "set (padAssignments this1) \<subseteq> set (padAssignments this2)"
proof
  fix x assume x: "x \<in> set (padAssignments this1)"
  obtain k a where ka: "x = (k, a)" by (cases x)
  have k: "k = getPadKey (bank a) (padNumber a)" using assms(1) x ka by (auto simp: wellFormed_def)
  have "getSample this2 (bank a) (padNumber a) = Some a"
    using wellFormed_getSample[OF assms(1)] x ka assms(3) by metis
  then have "map_of (padAssignments this2) k = Some a" by (simp add: getSample_def k)
  then show "x \<in> set (padAssignments this2)" using ka by (auto dest: map_of_SomeD)
qed

lemma createDiskImage_depends:
  assumes "length (padAssignments this1) = length (padAssignments this2)"
    and "sortBy compareAssignments (getPadAssignments this1) =
         sortBy compareAssignments (getPadAssignments this2)"
  shows "fst (createDiskImage this1) = fst (createDiskImage this2)"
  using assms by (simp add: createDiskImage_def Let_def)

text \<open>
  Claim C6. createDiskImage does not depend on the order of insertion: two builders, each
  reached through the builder's operations, that hold the same assignment for every bank
  and pad (getSample answers alike) produce the same result, byte for byte.
\<close>

theorem createDiskImage_order_independent:
  assumes "reachable this1" "reachable this2"
    and "\<forall>b p. getSample this1 b p = getSample this2 b p"
  shows "fst (createDiskImage this1) = fst (createDiskImage this2)"
proof -
  have w1: "wellFormed this1" and w2: "wellFormed this2"
    using assms(1,2) by (auto intro: reachable_wellFormed)
  have s: "set (padAssignments this1) = set (padAssignments this2)"
    using same_samples_same_entries[OF w1 w2] same_samples_same_entries[OF w2 w1] assms(3)
    by auto
  have d1: "distinct (padAssignments this1)" and d2: "distinct (padAssignments this2)"
    using w1 w2 by (auto simp: wellFormed_def distinct_map)
  have m: "mset (padAssignments this1) = mset (padAssignments this2)"
    using s d1 d2 by (simp add: set_eq_iff_mset_eq_distinct)
  then have len: "length (padAssignments this1) = length (padAssignments this2)"
    by (metis size_mset)
  have mv: "mset (getPadAssignments this1) = mset (getPadAssignments this2)"
    using m by (metis getPadAssignments_def mset_map)
  have "sort_key slot (getPadAssignments this1) = sort_key slot (getPadAssignments this2)"
    by (rule sort_key_inj_key_eq) (simp_all add: mv wellFormed_slot_inj[OF w1])
  then have "sortBy compareAssignments (getPadAssignments this1) =
             sortBy compareAssignments (getPadAssignments this2)"
    using wellFormed_valid[OF w1] wellFormed_valid[OF w2] by (simp add: sortBy_sort_key)
  with len show ?thesis by (rule createDiskImage_depends)
qed

theorem createDiskImage_order_independent_witness:
  "reachable \<lparr>padAssignments = [(''A1'', c6_first), (''B3'', c6_second)]\<rparr> \<and>
   reachable \<lparr>padAssignments = [(''B3'', c6_second), (''A1'', c6_first)]\<rparr> \<and>
   (\<forall>b p. getSample \<lparr>padAssignments = [(''A1'', c6_first), (''B3'', c6_second)]\<rparr> b p =
          getSample \<lparr>padAssignments = [(''B3'', c6_second), (''A1'', c6_first)]\<rparr> b p) \<and>
   fst (createDiskImage \<lparr>padAssignments = [(''A1'', c6_first), (''B3'', c6_second)]\<rparr>) =
   fst (createDiskImage \<lparr>padAssignments = [(''B3'', c6_second), (''A1'', c6_first)]\<rparr>)"
proof -
  let ?e = "\<lparr>padAssignments = []\<rparr>"
  let ?a = "\<lparr>padAssignments = [(''A1'', c6_first)]\<rparr>"
  let ?b = "\<lparr>padAssignments = [(''B3'', c6_second)]\<rparr>"
  let ?ab = "\<lparr>padAssignments = [(''A1'', c6_first), (''B3'', c6_second)]\<rparr>"
  let ?ba = "\<lparr>padAssignments = [(''B3'', c6_second), (''A1'', c6_first)]\<rparr>"
  have k: "getPadKey ''A'' 1 = ''A1''" "getPadKey ''B'' 3 = ''B3''"
    by (simp_all add: getPadKey_def numberToString_pad isValidPad_def)
  have "addSample ?e c6_first = Inr ?a" "addSample ?a c6_second = Inr ?ab"
       "addSample ?e c6_second = Inr ?b" "addSample ?b c6_first = Inr ?ba"
    by (simp_all add: addSample_def c6_first_def c6_second_def isValidBank_def isValidPad_def k)
  then have r: "reachable ?ab" "reachable ?ba"
    by (metis reachable.initial reachable.added)+
  have g: "\<forall>b p. getSample ?ab b p = getSample ?ba b p"
    by (auto simp: getSample_def Let_def)
  show ?thesis
    using createDiskImage_order_independent[OF r g] r g by blast
qed

section \<open>Alignment arithmetic\<close>

lemma and_not_mask_int: "(y::int) AND NOT (mask n) = y div 2 ^ n * 2 ^ n"
proof -
  have "push_bit n (drop_bit n y) = y AND NOT (mask n)"
    by (auto simp: bit_eq_iff bit_simps)
  then show ?thesis by (simp add: push_bit_eq_mult drop_bit_eq_div)
qed

lemma and_not_255: "(y::int) AND NOT 255 = y div 256 * 256"
  using and_not_mask_int[of y 8] by (simp add: mask_eq_exp_minus_1)

lemma alignUp_eq:
  assumes "0 \<le> x" "x \<le> 2000000000"
  shows "alignUp x = (x + 255) div 256 * 256"
proof -
  have s: "signed_take_bit 31 (x + 255) = x + 255"
    using assms by (intro signed_take_bit_int_eq_self) auto
  have "alignUp x = signed_take_bit 31 (x + 255) AND NOT 255"
    unfolding alignUp_def by (simp only: diff_numeral_simps add_diff_eq[symmetric]) simp
  also have "\<dots> = (x + 255) AND NOT 255" by (simp only: s)
  also have "\<dots> = (x + 255) div 256 * 256" by (rule and_not_255)
  finally show ?thesis .
qed

lemma alignUp_bounds:
  assumes "0 \<le> x" "x \<le> 2000000000"
  shows "x \<le> alignUp x" "alignUp x < x + 256" "alignUp x mod 256 = 0"
  using assms by (simp_all add: alignUp_eq)

lemma roundUp_aligned:
  assumes "(x::int) mod 256 = 0"
  shows "(x + 255) div 256 * 256 = x"
proof -
  from assms obtain k where k: "x = 256 * k" by (auto simp: mod_eq_0_iff_dvd)
  have "(256 * k + 255) div 256 = k" by simp
  then show ?thesis using k by simp
qed

lemma roundUp_capacity:
  assumes "(x::int) + 2 \<le> n" "n mod 256 = 0"
  shows "(x + 255) div 256 * 256 \<le> n"
proof -
  from assms(2) obtain m where m: "n = 256 * m" by (auto simp: mod_eq_0_iff_dvd)
  have "(x + 255) div 256 \<le> (256 * m + 253) div 256"
    using assms(1) m by (intro zdiv_mono1) auto
  also have "\<dots> = m" by simp
  finally show ?thesis using m by simp
qed

lemma alignUp_aligned: "0 \<le> x \<Longrightarrow> x \<le> 2000000000 \<Longrightarrow> x mod 256 = 0 \<Longrightarrow> alignUp x = x"
  by (simp add: alignUp_eq roundUp_aligned)

lemma alignUp_capacity:
  assumes "0 \<le> x" "x + 2 \<le> n" "n mod 256 = 0" "n \<le> 2000000000"
  shows "alignUp x \<le> n"
proof -
  have "alignUp x = (x + 255) div 256 * 256" using assms by (intro alignUp_eq) auto
  then show ?thesis using roundUp_capacity[OF assms(2,3)] by simp
qed

section \<open>Lemmas on buffers and on the layout loop\<close>

lemma length_writeBytes [simp]: "length (writeBytes buf off src) = length buf"
  by (induction src arbitrary: buf off) auto

lemma nth_writeBytes:
  "writeBytes buf off src ! i =
     (if off \<le> i \<and> i < off + length src \<and> i < length buf then src ! (i - off) else buf ! i)"
proof (induction src arbitrary: buf off)
  case Nil
  then show ?case by auto
next
  case (Cons b bs)
  show ?case
  proof (cases "i = off")
    case True
    then show ?thesis using Cons[of "buf[off := b]" "Suc off"]
      by (cases "off < length buf") (auto simp: list_update_beyond)
  next
    case False
    then show ?thesis using Cons[of "buf[off := b]" "Suc off"] by (auto simp: nth_Cons')
  qed
qed

declare writeBytes.simps [simp del]

lemma length_bytesFill [simp]: "length (bytesFill buf v s e) = length buf"
  by (auto simp: bytesFill_def Let_def)

lemma nth_bytesFill:
  "bytesFill buf v s e ! i = (if s \<le> i \<and> i < e \<and> i < length buf then v else buf ! i)"
  by (auto simp: bytesFill_def Let_def nth_append)

lemma bytesFill_zero [simp]: "bytesFill (replicate n 0) 0 s e = replicate n 0"
  by (rule nth_equalityI) (auto simp: nth_bytesFill)

lemma length_setUint8: "setUint8 buf off v = Inr b \<Longrightarrow> length b = length buf"
  by (auto simp: setUint8_def split: if_splits)

lemma length_setUint16: "setUint16 buf off v le = Inr b \<Longrightarrow> length b = length buf"
  by (auto simp: setUint16_def split: if_splits)

lemma length_setUint32: "setUint32 buf off v le = Inr b \<Longrightarrow> length b = length buf"
  by (auto simp: setUint32_def split: if_splits)

lemma length_bytesSet: "bytesSet buf src off = Inr b \<Longrightarrow> length b = length buf"
  by (auto simp: bytesSet_def split: if_splits)

lemma andThen_return [simp]: "andThen m Inr = m"
  by (cases m) auto

lemma andThen_Inr: "andThen m f = Inr y \<longleftrightarrow> (\<exists>x. m = Inr x \<and> f x = Inr y)"
  by (cases m) auto

lemma andThen_Inl: "andThen m f = Inl e \<longleftrightarrow> m = Inl e \<or> (\<exists>x. m = Inr x \<and> f x = Inl e)"
  by (cases m) auto

lemma length_writeMetadata: "writeMetadata buf peo md = Inr b \<Longrightarrow> length b = length buf"
  by (auto simp: writeMetadata_def andThen_Inr Let_def split: option.splits
      dest!: length_setUint8 length_setUint16)

lemma length_writePadEntry: "writePadEntry buf cur a = Inr b \<Longrightarrow> length b = length buf"
  by (auto simp: writePadEntry_def andThen_Inr Let_def
      dest!: length_setUint8 length_setUint32 length_bytesSet length_writeMetadata)

lemma writeSampleData_Inr:
  assumes "writeSampleData buf cur a = Inr (b, next)"
  shows "length b = length buf"
    and "0 \<le> cur \<Longrightarrow> cur mod 256 = 0 \<Longrightarrow> length buf mod 256 = 0 \<Longrightarrow> length buf \<le> 2000000000 \<Longrightarrow>
         0 \<le> next \<and> next mod 256 = 0 \<and> next \<le> int (length buf)"
proof -
  from assms obtain b1 where
    b1: "bytesSet buf (data a) cur = Inr b1" and
    b: "setUint16 b1 (cur + int (length (data a))) 32768 True = Inr b" and
    n: "next = alignUp (cur + int (length (data a)))"
    if "cur mod 256 = 0"
    by (auto simp: writeSampleData_def andThen_Inr Let_def split: if_splits)
  show "length b = length buf"
    using assms
    by (auto simp: writeSampleData_def andThen_Inr Let_def split: if_splits
        dest!: length_bytesSet length_setUint16)
  assume c: "0 \<le> cur" "cur mod 256 = 0" "length buf mod 256 = 0" "length buf \<le> 2000000000"
  have l1: "length b1 = length buf" using b1[OF c(2)] by (rule length_bytesSet)
  have m: "cur + int (length (data a)) + 2 \<le> int (length buf)"
    using b[OF c(2)] l1 by (auto simp: setUint16_def split: if_splits)
  let ?e = "cur + int (length (data a))"
  have e0: "0 \<le> ?e" using c(1) by simp
  have e1: "?e \<le> 2000000000" using m c(4) by simp
  have n1: "int (length buf) mod 256 = 0" using c(3) by presburger
  have n2: "int (length buf) \<le> 2000000000" using c(4) by simp
  have "alignUp ?e \<le> int (length buf)"
    by (rule alignUp_capacity[OF e0 m n1 n2])
  then show "0 \<le> next \<and> next mod 256 = 0 \<and> next \<le> int (length buf)"
    using alignUp_bounds[OF e0 e1] e0 n[OF c(2)] by simp
qed

lemma layoutSamples_Inr:
  assumes "layoutSamples buf cur xs = Inr (b, next)"
    and "0 \<le> cur" "cur mod 256 = 0" "cur \<le> int (length buf)"
    and "length buf mod 256 = 0" "length buf \<le> 2000000000"
  shows "length b = length buf \<and> 0 \<le> next \<and> next mod 256 = 0 \<and> next \<le> int (length buf)"
  using assms
proof (induction xs arbitrary: buf cur)
  case Nil
  then show ?case by simp
next
  case (Cons x xs)
  from Cons.prems(1) obtain b1 b2 c2 where
    1: "writePadEntry buf cur x = Inr b1" and
    2: "writeSampleData b1 cur x = Inr (b2, c2)" and
    3: "layoutSamples b2 c2 xs = Inr (b, next)"
    by (auto simp: andThen_Inr)
  have l1: "length b1 = length buf" using 1 by (rule length_writePadEntry)
  have l2: "length b2 = length buf" using writeSampleData_Inr(1)[OF 2] l1 by simp
  have c2: "0 \<le> c2 \<and> c2 mod 256 = 0 \<and> c2 \<le> int (length buf)"
    using writeSampleData_Inr(2)[OF 2] Cons.prems l1 by simp
  show ?case
    using Cons.IH[OF 3] c2 l2 Cons.prems by simp
qed

lemma createDiskImage_length:
  assumes "fst (createDiskImage this) = Inr img"
  shows "length img = 824576"
proof -
  let ?b = "bytesFill
     ((replicate 824576 (0::byte))[0 := word_of_int 4608, Suc 0 := word_of_int 18,
        2 := word_of_int (int (length (padAssignments this))),
        3 := word_of_int (int (length (padAssignments this)) div 256), 4 := 0, 5 := 0]) 0 2048 3072"
  from assms obtain b c where
    l: "layoutSamples ?b 4096 (sortBy compareAssignments (getPadAssignments this)) = Inr (b, c)"
    and r: "(if c > 824576 then Inl (Error [Text ''Disk image exceeds maximum size'']) else Inr b) = Inr img"
    by (auto simp: createDiskImage_def Let_def setUint16_def andThen_Inr)
  have "length b = length ?b" using layoutSamples_Inr[OF l] by simp
  then show ?thesis using r by (auto split: if_splits)
qed

lemma err_setUint8: "setUint8 buf off v = Inl e \<Longrightarrow> e = RangeError"
  by (auto simp: setUint8_def split: if_splits)

lemma err_setUint16: "setUint16 buf off v le = Inl e \<Longrightarrow> e = RangeError"
  by (auto simp: setUint16_def split: if_splits)

lemma err_setUint32: "setUint32 buf off v le = Inl e \<Longrightarrow> e = RangeError"
  by (auto simp: setUint32_def split: if_splits)

lemma err_bytesSet: "bytesSet buf src off = Inl e \<Longrightarrow> e = RangeError"
  by (auto simp: bytesSet_def split: if_splits)

lemma err_writeMetadata: "writeMetadata buf peo md = Inl e \<Longrightarrow> e = RangeError"
  by (auto simp: writeMetadata_def andThen_Inl Let_def split: option.splits
      dest: err_setUint8 err_setUint16)

lemma err_writePadEntry: "writePadEntry buf cur a = Inl e \<Longrightarrow> e = RangeError"
  by (auto simp: writePadEntry_def andThen_Inl Let_def
      dest: err_setUint8 err_setUint32 err_bytesSet err_writeMetadata)

lemma err_writeSampleData: "writeSampleData buf cur a = Inl e \<Longrightarrow> e = RangeError"
  by (auto simp: writeSampleData_def andThen_Inl Let_def split: if_splits
      dest: err_setUint16 err_bytesSet)

lemma err_layoutSamples: "layoutSamples buf cur xs = Inl e \<Longrightarrow> e = RangeError"
proof (induction xs arbitrary: buf cur)
  case Nil
  then show ?case by simp
next
  case (Cons x xs)
  then show ?case
    by (auto simp: andThen_Inl dest: err_writePadEntry err_writeSampleData)
qed

lemma createDiskImage_cases:
  "(\<exists>img. fst (createDiskImage this) = Inr img \<and> length img = 824576) \<or>
   fst (createDiskImage this) = Inl RangeError"
proof (cases "fst (createDiskImage this)")
  case (Inr img)
  then show ?thesis using createDiskImage_length by simp
next
  case (Inl e)
  let ?b = "bytesFill
     ((replicate 824576 (0::byte))[0 := word_of_int 4608, Suc 0 := word_of_int 18,
        2 := word_of_int (int (length (padAssignments this))),
        3 := word_of_int (int (length (padAssignments this)) div 256), 4 := 0, 5 := 0]) 0 2048 3072"
  let ?l = "layoutSamples ?b 4096 (sortBy compareAssignments (getPadAssignments this))"
  have "e = RangeError"
  proof (cases ?l)
    case l: (Inl e')
    then have "e' = RangeError" by (rule err_layoutSamples)
    then show ?thesis using Inl l by (simp add: createDiskImage_def Let_def setUint16_def)
  next
    case r: (Inr p)
    obtain b c where p: "p = (b, c)" by (cases p)
    have "c \<le> 824576" using layoutSamples_Inr[of ?b 4096 _ b c] r p by simp
    then show ?thesis using Inl r p by (simp add: createDiskImage_def Let_def setUint16_def)
  qed
  then show ?thesis using Inl by simp
qed

section \<open>Evaluation of the builder and the parsers on concrete inputs\<close>

lemma readName_numeral:
  "readName view off (numeral k) =
     andThen (getUint8 view off) (\<lambda>c.
       if c = 0 then Inr []
       else andThen (readName view (off + 1) (pred_numeral k)) (\<lambda>rest. Inr (fromCharCode c # rest)))"
  by (simp add: numeral_eq_Suc)

lemma readData_numeral:
  "readData view off (numeral k) =
     andThen (getUint8 view off) (\<lambda>c.
     andThen (readData view (off + 1) (pred_numeral k)) (\<lambda>rest. Inr (of_nat c # rest)))"
  by (simp add: numeral_eq_Suc)

lemma parseSamples_numeral:
  "parseSamples view i (numeral k) =
     andThen (parsePadEntry view i) (\<lambda>s.
     andThen (parseSamples view (i + 1) (pred_numeral k)) (\<lambda>rest. Inr (s # rest)))"
  by (simp add: numeral_eq_Suc)

lemmas build_eval =
  createDiskImage_def Let_def getPadAssignments_def sortBy_def compareAssignments_def
  localeCompare_banks writePadEntry_def writeSampleData_def writeMetadata_def
  setUint8_def setUint16_def setUint32_def bytesSet_def entryAt_def getPadIndex_def
  bankOffset_def bankIndexOf_def alignUp_def TextEncoder_encode_def utf8_def orElse_def
  addSample_def isValidBank_def isValidPad_def getPadKey_def numberToString_pad

lemmas parse_eval =
  parseSP1200Disk_def parsePadEntry_def getUint8_def getUint16_def getUint32_def
  nth_writeBytes nth_bytesFill readName_numeral readData_numeral parseSamples_numeral trim_def

section \<open>createDiskImage: size of the result and capacity\<close>

text \<open>
  Claim C5. createDiskImage returns a buffer of 824576 bytes or fails, and never returns a
  buffer of another length (\<open>createDiskImage_cases\<close>). The failure of a builder whose
  data does not fit is not the error of the capacity check at the end of the function,
  though: the writes into the buffer come first and raise a RangeError, and the check is
  never reached with a cursor beyond the disk size. Here the builder holds one assignment
  of 820481 data bytes, one more than the data region has.
\<close>

theorem createDiskImage_overflow_is_RangeError:
  "andThen (addSample \<lparr>padAssignments = []\<rparr> c5_assignment) (\<lambda>builder.
     fst (createDiskImage builder)) = Inl RangeError"
  by (simp add: c5_assignment_def build_eval)

section \<open>createDiskImage: end markers\<close>

text \<open>
  Claim C2. The cursor for the next assignment is the end marker's offset rounded up to
  256, not the offset past the marker. After an assignment whose data length is a
  multiple of 256 the next assignment's data therefore starts on the marker: with 256
  bytes at pad A1 and the bytes AA BB at pad A2, the second pad entry records the data
  offset 4096 + 256, and the word at that offset, where the first sample's end marker was
  written, reads 0xBBAA instead of 0x8000.
\<close>

theorem createDiskImage_end_marker_overwritten:
  "andThen (addSample \<lparr>padAssignments = []\<rparr> c2_first) (\<lambda>b1.
   andThen (addSample b1 c2_second) (\<lambda>b2.
   andThen (fst (createDiskImage b2)) (\<lambda>img.
   andThen (getUint32 img (SP1200_PAD_TABLE_OFFSET + 1 * SP1200_PAD_ENTRY_SIZE + 16) True) (\<lambda>secondOffset.
   andThen (getUint16 img (SP1200_SAMPLE_DATA_OFFSET + 256) True) (\<lambda>w.
   Inr (secondOffset, w)))))) = Inr (4096 + 256, 48042)"
  by (simp add: c2_first_def c2_second_def build_eval parse_eval)

section \<open>parseSP1200Disk after createDiskImage\<close>

text \<open>
  Claim C1. parseSP1200Disk reads the first \<open>numSamples\<close> entries of the pad table,
  while createDiskImage writes each entry at the index of its bank and pad. A disk built
  from the single assignment B1 (name KICK, two data bytes) is parsed into one sample that
  is read from the empty entry 0: bank A, pad 1, no name and no data.
\<close>

theorem parseSP1200Disk_reads_first_slots:
  "andThen (addSample \<lparr>padAssignments = []\<rparr> c1_assignment) (\<lambda>builder.
     andThen (fst (createDiskImage builder)) parseSP1200Disk) =
   Inr \<lparr>samples =
          [\<lparr>SP1200Sample.name = [], SP1200Sample.bank = Some ''A'', SP1200Sample.padNumber = 1,
            SP1200Sample.data = [], SP1200Sample.sampleRate = 26040,
            SP1200Sample.bitsPerSample = 12, length_words = 0,
            SP1200Sample.metadata = None\<rparr>],
        sequences = []\<rparr>"
  by (simp add: c1_assignment_def build_eval parse_eval)

section \<open>Single-sample files: encoding and decoding\<close>

lemma readData_ok:
  "0 \<le> off \<Longrightarrow> nat off + n \<le> length view \<Longrightarrow>
   readData view off n = Inr (take n (drop (nat off) view))"
proof (induction n arbitrary: off)
  case 0
  show ?case by simp
next
  case (Suc n)
  have lt: "nat off < length view" using Suc.prems by simp
  have g: "getUint8 view off = Inr (unat (view ! nat off))"
    using Suc.prems by (simp add: getUint8_def)
  have r: "readData view (off + 1) n = Inr (take n (drop (nat (off + 1)) view))"
    using Suc.prems by (intro Suc.IH) auto
  have n1: "nat (off + 1) = Suc (nat off)" using Suc.prems by simp
  have "take (Suc n) (drop (nat off) view) = view ! nat off # take n (drop (Suc (nat off)) view)"
    using lt by (simp add: Cons_nth_drop_Suc[symmetric])
  then show ?case by (simp add: g r n1)
qed

lemma readName_ok:
  assumes "0 \<le> off" "nat off + n \<le> length view" "length cs \<le> n"
    and "\<forall>i < length cs. view ! (nat off + i) = cs ! i \<and> cs ! i \<noteq> 0"
    and "length cs < n \<longrightarrow> view ! (nat off + length cs) = 0"
  shows "readName view off n = Inr (map (\<lambda>b. fromCharCode (unat b)) cs)"
  using assms
proof (induction n arbitrary: off cs)
  case 0
  then show ?case by simp
next
  case (Suc n)
  have g: "getUint8 view off = Inr (unat (view ! nat off))"
    using Suc.prems by (simp add: getUint8_def)
  show ?case
  proof (cases cs)
    case Nil
    then have "view ! nat off = 0" using Suc.prems(5) by simp
    then show ?thesis using Nil by (simp add: g)
  next
    case (Cons c cs')
    have c: "view ! nat off = c" "c \<noteq> 0" using Suc.prems(4) Cons by auto
    have n1: "nat (off + 1) = Suc (nat off)" using Suc.prems by simp
    have "readName view (off + 1) n = Inr (map (\<lambda>b. fromCharCode (unat b)) cs')"
    proof (rule Suc.IH)
      show "0 \<le> off + 1" using Suc.prems by simp
      show "nat (off + 1) + n \<le> length view" using Suc.prems n1 by simp
      show "length cs' \<le> n" using Suc.prems Cons by simp
      show "\<forall>i<length cs'. view ! (nat (off + 1) + i) = cs' ! i \<and> cs' ! i \<noteq> 0"
        using Suc.prems(4) Cons n1 by (auto simp: less_Suc_eq_0_disj all_conj_distrib)
      show "length cs' < n \<longrightarrow> view ! (nat (off + 1) + length cs') = 0"
        using Suc.prems(5) Cons n1 by simp
    qed
    then show ?thesis using Cons c by (simp add: g unat_eq_0)
  qed
qed

lemma TextEncoder_ascii:
  assumes "\<forall>c \<in> set s. (of_char c :: nat) < 128"
  shows "TextEncoder_encode s = map (\<lambda>c. of_nat (of_char c)) s"
  using assms by (induction s) (auto simp: TextEncoder_encode_def utf8_def)

lemma unat_byte_of_nat: "unat (word_of_int (int v) :: byte) = v mod 256"
  by (simp add: unat_of_nat)

lemma unat_byte_div:
  "unat (word_of_int (int n div numeral k) :: byte) = (n div numeral k) mod 256"
proof -
  have "int n div numeral k = int (n div numeral k)" by (simp add: zdiv_int)
  then have "(word_of_int (int n div numeral k) :: byte) = of_nat (n div numeral k)"
    by (simp only: word_of_int_nat of_nat_0_le_iff nat_int)
  then show ?thesis by (simp only: unat_of_nat) simp
qed

lemma le32_roundtrip:
  assumes "(n::nat) < 4294967296"
  shows "n mod 256 + 256 * (n div 256 mod 256) + 65536 * (n div 65536 mod 256)
         + 16777216 * (n div 16777216 mod 256) = n"
proof -
  define q1 where "q1 = n div 256"
  define q2 where "q2 = q1 div 256"
  define q3 where "q3 = q2 div 256"
  have d2: "n div 65536 = q2" unfolding q2_def q1_def by (simp add: div_mult2_eq)
  have d3: "n div 16777216 = q3" unfolding q3_def q2_def q1_def by (simp add: div_mult2_eq)
  have "q3 < 256" using assms d3[symmetric] by (simp add: less_mult_imp_div_less)
  then have m3: "q3 mod 256 = q3" by simp
  have e0: "n = n mod 256 + 256 * q1" unfolding q1_def by simp
  have e1: "q1 = q1 mod 256 + 256 * q2" unfolding q2_def by simp
  have e2: "q2 = q2 mod 256 + 256 * q3" unfolding q3_def by simp
  have "n mod 256 + 256 * (q1 mod 256) + 65536 * (q2 mod 256) + 16777216 * q3 = n"
    using e0 e1 e2 by linarith
  then show ?thesis using d2 d3 m3 q1_def by simp
qed

lemma fromCharCode_eq: "fromCharCode n = c \<longleftrightarrow> n mod 256 = of_char c"
proof
  assume "fromCharCode n = c"
  then have "(of_char (char_of n) :: nat) = of_char c" by (simp add: fromCharCode_def)
  then show "n mod 256 = of_char c" by simp
next
  assume a: "n mod 256 = of_char c"
  have "char_of n = (char_of (n mod 256) :: char)" by simp
  also have "\<dots> = char_of (of_char c :: nat)" by (simp only: a)
  also have "\<dots> = c" by simp
  finally show "fromCharCode n = c" by (simp add: fromCharCode_def)
qed

lemma of_char_fromCharCode: "(of_char (fromCharCode n) :: nat) = n mod 256"
  by (simp add: fromCharCode_def)

lemmas file_eval =
  createSP1200SampleFile_def parseSP1200File_def Let_def setUint16_def setUint32_def bytesSet_def
  getUint8_def getUint16_def getUint32_def TextEncoder_encode_def utf8_def
  nth_writeBytes readName_numeral readData_numeral trim_def isWhiteSpace_def fromCharCode_eq
  of_char_fromCharCode

text \<open>
  Claim C7, amended. parseSP1200File keeps the name and the data of an encoded sample, and
  nothing else of it. For a sample whose name has at most 12 characters, all of them ASCII
  and none NUL, with no white space at either end, and whose data is a whole number of
  words, at least one, that fits behind the data offset (at most 820480 bytes), decoding
  the encoded file gives back the name and the data bytes, the length as the number of
  words, and the fixed values bank A, pad 1, sample rate 26040, 12 bits and no metadata,
  whatever the sample had there.
\<close>

theorem sampleFile_roundtrip:
  assumes n12: "length (SP1200Sample.name s) \<le> 12"
    and words: "0 < length (SP1200Sample.data s) div 2"
    and ascii: "\<forall>c \<in> set (SP1200Sample.name s). (of_char c :: nat) < 128 \<and> (of_char c :: nat) \<noteq> 0"
    and trimmed: "trim (SP1200Sample.name s) = SP1200Sample.name s"
    and evn: "even (length (SP1200Sample.data s))"
    and fits: "length (SP1200Sample.data s) \<le> 820480"
  shows "andThen (createSP1200SampleFile s) parseSP1200File =
         Inr (s\<lparr>SP1200Sample.bank := Some ''A'', SP1200Sample.padNumber := 1,
                SP1200Sample.sampleRate := 26040, SP1200Sample.bitsPerSample := 12,
                length_words := length (SP1200Sample.data s) div 2,
                SP1200Sample.metadata := None\<rparr>)"
proof -
  let ?nm = "SP1200Sample.name s"
  let ?d = "SP1200Sample.data s"
  let ?nw = "length ?d div 2"
  let ?nb = "map (\<lambda>c. (of_nat (of_char c) :: byte)) ?nm"
  define B where "B = (writeBytes
        ((replicate 824576 (0::byte))[0 := word_of_int 4608, Suc 0 := word_of_int 18,
            2 := word_of_int 1, 3 := 0, 4 := 0, 5 := 0]) 2048 ?nb)
        [2060 := word_of_int (int ?nw), 2061 := word_of_int (int ?nw div 256),
         2062 := word_of_int (int ?nw div 65536), 2063 := word_of_int (int ?nw div 16777216),
         2064 := word_of_int 4096, 2065 := word_of_int 16, 2066 := 0, 2067 := 0]"
  define F where "F = writeBytes B 4096 ?d"
  have enc: "TextEncoder_encode ?nm = ?nb"
    using ascii by (simp add: TextEncoder_ascii)
  have lB: "length B = 824576" by (simp add: B_def)
  have lF: "length F = 824576" by (simp add: F_def lB)
  have cf: "createSP1200SampleFile s = Inr F"
    using n12 fits
    by (simp add: createSP1200SampleFile_def Let_def setUint16_def setUint32_def bytesSet_def
        enc F_def B_def)
  have Fhi: "F ! i = ?d ! (i - 4096)" if "4096 \<le> i" "i < 4096 + length ?d" for i
    using that fits by (simp add: F_def nth_writeBytes lB)
  have Flo: "F ! i = B ! i" if "i < 4096" for i
    using that by (simp add: F_def nth_writeBytes)
  have magic: "getUint16 F 0 True = Inr 4608"
    by (simp add: getUint16_def lF Flo B_def nth_writeBytes)
  have nameBytes: "\<forall>i < length ?nb. F ! (nat 2048 + i) = ?nb ! i \<and> ?nb ! i \<noteq> 0"
  proof (intro allI impI)
    fix i assume i: "i < length ?nb"
    then have "F ! (2048 + i) = ?nb ! i"
      using n12 by (simp add: Flo B_def nth_writeBytes)
    moreover have "?nb ! i \<noteq> 0"
    proof -
      have "(of_char (?nm ! i) :: nat) < 128 \<and> (of_char (?nm ! i) :: nat) \<noteq> 0"
        using ascii i by simp
      then have "unat (of_nat (of_char (?nm ! i)) :: byte) \<noteq> 0"
        by (simp add: unat_of_nat)
      then show ?thesis using i by (auto simp: unat_eq_0)
    qed
    ultimately show "F ! (nat 2048 + i) = ?nb ! i \<and> ?nb ! i \<noteq> 0" by simp
  qed
  have nameEnd: "length ?nb < 12 \<longrightarrow> F ! (nat 2048 + length ?nb) = 0"
    by (simp add: Flo B_def nth_writeBytes)
  have "readName F 2048 12 = Inr (map (\<lambda>b. fromCharCode (unat b)) ?nb)"
    by (rule readName_ok) (use n12 nameBytes nameEnd lF in simp_all)
  moreover have "map (\<lambda>b. fromCharCode (unat b)) ?nb = ?nm"
  proof -
    have "fromCharCode (unat (of_nat (of_char c) :: byte)) = c" for c :: char
      by (simp add: fromCharCode_def unat_of_nat)
    then show ?thesis by (simp add: o_def)
  qed
  ultimately have rn: "readName F 2048 12 = Inr ?nm" by simp
  have nw32: "?nw < 4294967296" using fits by simp
  have "getUint32 F 2060 True = Inr (?nw mod 256 + 256 * (?nw div 256 mod 256)
          + 65536 * (?nw div 65536 mod 256) + 16777216 * (?nw div 16777216 mod 256))"
    by (simp add: getUint32_def lF Flo B_def unat_byte_div unat_of_nat)
  then have gw: "getUint32 F 2060 True = Inr ?nw" using le32_roundtrip[OF nw32] by simp
  have go: "getUint32 F 2064 True = Inr 4096"
    by (simp add: getUint32_def lF Flo B_def)
  have len: "?nw * 2 = length ?d" using evn by simp
  have "readData F 4096 (?nw * 2) = Inr (take (?nw * 2) (drop (nat 4096) F))"
    by (rule readData_ok) (use fits lF len in simp_all)
  moreover have "take (length ?d) (drop 4096 F) = ?d"
    by (rule nth_equalityI) (use fits lF Fhi in \<open>simp_all add: min_def\<close>)
  ultimately have rd: "readData F 4096 (?nw * 2) = Inr ?d" using len by simp
  show ?thesis
    using trimmed
    by (simp add: cf parseSP1200File_def magic rn gw go rd)
qed

theorem sampleFile_roundtrip_witness:
  "length (SP1200Sample.name c7_clean) \<le> 12 \<and>
   0 < length (SP1200Sample.data c7_clean) div 2 \<and>
   map of_char (SP1200Sample.name c7_clean) = [83, 78, 65, 82, 69 :: nat] \<and>
   trim (SP1200Sample.name c7_clean) = SP1200Sample.name c7_clean \<and>
   even (length (SP1200Sample.data c7_clean)) \<and>
   length (SP1200Sample.data c7_clean) \<le> 820480 \<and>
   andThen (createSP1200SampleFile c7_clean) parseSP1200File =
     Inr \<lparr>SP1200Sample.name = ''SNARE'', SP1200Sample.bank = Some ''A'', SP1200Sample.padNumber = 1,
          SP1200Sample.data = [1, 2, 3, 4], SP1200Sample.sampleRate = 26040,
          SP1200Sample.bitsPerSample = 12, length_words = 2, SP1200Sample.metadata = None\<rparr>"
proof -
  have h: "length (SP1200Sample.name c7_clean) \<le> 12"
    "0 < length (SP1200Sample.data c7_clean) div 2"
    "\<forall>c \<in> set (SP1200Sample.name c7_clean). (of_char c :: nat) < 128 \<and> (of_char c :: nat) \<noteq> 0"
    "trim (SP1200Sample.name c7_clean) = SP1200Sample.name c7_clean"
    "even (length (SP1200Sample.data c7_clean))"
    "length (SP1200Sample.data c7_clean) \<le> 820480"
    by (simp_all add: c7_clean_def trim_def isWhiteSpace_def)
  have codes: "map of_char (SP1200Sample.name c7_clean) = [83, 78, 65, 82, 69 :: nat]"
    by (simp add: c7_clean_def)
  have "andThen (createSP1200SampleFile c7_clean) parseSP1200File =
     Inr \<lparr>SP1200Sample.name = ''SNARE'', SP1200Sample.bank = Some ''A'', SP1200Sample.padNumber = 1,
          SP1200Sample.data = [1, 2, 3, 4], SP1200Sample.sampleRate = 26040,
          SP1200Sample.bitsPerSample = 12, length_words = 2, SP1200Sample.metadata = None\<rparr>"
    using sampleFile_roundtrip[OF h] by (simp add: c7_clean_def)
  then show ?thesis using h(1,2,4,5,6) codes by simp
qed

text \<open>
  The claim as it was stated fails for a sample on bank B, pad 5, named \<open>KICK\<close> with a
  space at the end: the decoded sample is on bank A, pad 1, and its name has lost the space.
\<close>

theorem sampleFile_roundtrip_counterexample:
  "andThen (createSP1200SampleFile c7_sample) parseSP1200File =
     Inr (c7_sample\<lparr>SP1200Sample.name := ''KICK'', SP1200Sample.bank := Some ''A'',
                     SP1200Sample.padNumber := 1\<rparr>) \<and>
   andThen (createSP1200SampleFile c7_sample) parseSP1200File \<noteq> Inr c7_sample"
  by (simp add: c7_sample_def file_eval)

section \<open>WAV validation\<close>

lemma scanChunks_step:
  "int off < int (length buffer) - 8 \<Longrightarrow>
   scanChunks buffer off st =
     (case scanChunk buffer off st of
        Inl e \<Rightarrow> Inl e
      | Inr (chunkSize, st') \<Rightarrow>
          scanChunks buffer (off + 8 + chunkSize + (if chunkSize mod 2 \<noteq> 0 then 1 else 0)) st')"
  by (subst scanChunks.simps) simp

lemma scanChunks_stop:
  "\<not> int off < int (length buffer) - 8 \<Longrightarrow> scanChunks buffer off st = Inr st"
  by (subst scanChunks.simps) simp

lemmas wav_eval =
  parseWavHeader_def readFourCC_def scanChunk_def scanChunks_step scanChunks_stop
  getUint8_def getUint16_def getUint32_def nth_append fromCharCode_eq

lemma parse_silent:
  "parseWavHeader silent_wav =
     Inr \<lparr>audioFormat = 1, channels = 1, WavDescriptor.sampleRate = 44100, bitsPerSample = 16,
          dataOffset = 44, dataLength = 88200\<rparr>"
  by (simp add: silent_wav_def wav_eval)

text \<open>
  Claim C4. For every buffer that parseWavHeader parses, validateWavFormat accepts the
  descriptor exactly when the audio format is 1, there are 1 or 2 channels, 8, 16 or 24
  bits per sample, a sample rate from 8000 to 192000, and the sample count
  dataLength / (bitsPerSample / 8) / channels is at least 100. A rejection carries a
  reason. The verdict is a function of the descriptor; nothing else is read or written.
\<close>

theorem validateWavFormat_accepts_iff:
  assumes "parseWavHeader buffer = Inr wav"
  shows "(isValid (validateWavFormat wav) \<longleftrightarrow>
            audioFormat wav = 1 \<and> channels wav \<in> {1, 2} \<and> bitsPerSample wav \<in> {8, 16, 24} \<and>
            8000 \<le> WavDescriptor.sampleRate wav \<and> WavDescriptor.sampleRate wav \<le> 192000 \<and>
            real (dataLength wav) / (real (bitsPerSample wav) / 8) / real (channels wav) \<ge> 100) \<and>
         (\<not> isValid (validateWavFormat wav) \<longrightarrow> error (validateWavFormat wav) \<noteq> None)"
  by (auto simp: validateWavFormat_def Let_def)

theorem validateWavFormat_accepts_iff_witness:
  "parseWavHeader silent_wav =
     Inr \<lparr>audioFormat = 1, channels = 1, WavDescriptor.sampleRate = 44100, bitsPerSample = 16,
          dataOffset = 44, dataLength = 88200\<rparr> \<and>
   isValid (validateWavFormat
     \<lparr>audioFormat = 1, channels = 1, WavDescriptor.sampleRate = 44100, bitsPerSample = 16,
      dataOffset = 44, dataLength = 88200\<rparr>)"
  using validateWavFormat_accepts_iff[OF parse_silent] parse_silent by simp

section \<open>The SND file\<close>

lemma writeFilename_eq:
  "0 \<le> off \<Longrightarrow> nat off + length cs \<le> length view \<Longrightarrow>
   writeFilename view cs off =
     Inr (writeBytes view (nat off) (map (\<lambda>c. word_of_int (int (of_char c))) cs))"
proof (induction cs arbitrary: view off)
  case Nil
  show ?case by (simp add: writeBytes.simps)
next
  case (Cons c cs)
  have s: "setUint8 view off (int (of_char c)) = Inr (view[nat off := word_of_int (int (of_char c))])"
    using Cons.prems by (simp add: setUint8_def)
  have n1: "nat (off + 1) = Suc (nat off)" using Cons.prems by simp
  have "writeFilename (view[nat off := word_of_int (int (of_char c))]) cs (off + 1) =
        Inr (writeBytes (view[nat off := word_of_int (int (of_char c))]) (nat (off + 1))
               (map (\<lambda>c. word_of_int (int (of_char c))) cs))"
    using Cons.prems n1 by (intro Cons.IH) auto
  then show ?case by (simp add: s n1 writeBytes.simps)
qed

lemma writeLoopRecords_numeral:
  "writeLoopRecords view i (numeral k) =
     (let off = 38 + int i * 12
      in andThen (setUint32 view off 0 False) (\<lambda>v1.
         andThen (setUint16 v1 (off + 4) 0 False) (\<lambda>v2.
         andThen (setUint32 v2 (off + 6) 0 False) (\<lambda>v3.
         andThen (setUint16 v3 (off + 10) 0 False) (\<lambda>v4.
         writeLoopRecords v4 (i + 1) (pred_numeral k))))))"
  by (simp add: numeral_eq_Suc)

lemma writeReserved_numeral:
  "writeReserved view i (numeral k) =
     andThen (setUint8 view i 0) (\<lambda>v. writeReserved v (i + 1) (pred_numeral k))"
  by (simp add: numeral_eq_Suc)

lemma length_filename: "length (take 12 (padEnd (take 12 s) 12 c)) = 12"
  by (simp add: padEnd_def)

lemma be32_roundtrip:
  "16777216 * (n div 16777216 mod 256) + 65536 * (n div 65536 mod 256)
   + 256 * (n div 256 mod 256) + n mod 256 = (n::nat) mod 4294967296"
proof -
  let ?m = "n mod 4294967296"
  have m: "?m < 4294967296" by simp
  have "drop_bit k (take_bit 32 n) = take_bit (32 - k) (drop_bit k n)" for k
    by (rule drop_bit_take_bit)
  then have d: "?m div 2 ^ k = n div 2 ^ k mod 2 ^ (32 - k)" for k
    by (simp add: take_bit_eq_mod drop_bit_eq_div)
  have d8: "?m div 256 mod 256 = n div 256 mod 256"
    using d[of 8] by (simp add: mod_mod_cancel)
  have d16: "?m div 65536 mod 256 = n div 65536 mod 256"
    using d[of 16] by (simp add: mod_mod_cancel)
  have d24: "?m div 16777216 mod 256 = n div 16777216 mod 256"
    using d[of 24] by simp
  have d0: "?m mod 256 = n mod 256" by (simp add: mod_mod_cancel)
  show ?thesis using le32_roundtrip[OF m] d0 d8 d16 d24 by simp
qed

lemmas snd_eval =
  sndHeader_def Let_def setUint8_def setUint16_def setUint32_def writeFilename_eq length_filename
  writeLoopRecords_numeral writeReserved_numeral nth_writeBytes

lemma sndHeader_layout:
  "\<exists>header. sndHeader audioBuffer fileName n = Inr header \<and>
     length header = 192 \<and> header ! 0 = 3 \<and> header ! 15 = 128 \<and> header ! 19 = 2 \<and>
     [header ! 22, header ! 23, header ! 24, header ! 25] = [0, 8, 2, 0] \<and>
     getUint32 header 26 False = Inr (n mod 4294967296)"
proof -
  obtain header where h: "sndHeader audioBuffer fileName n = Inr header"
    and l: "length header = 192"
    and b: "header ! 0 = 3" "header ! 15 = 128" "header ! 19 = 2"
       "header ! 22 = 0" "header ! 23 = 8" "header ! 24 = 2" "header ! 25 = 0"
    and c: "header ! 26 = word_of_int (int n div 16777216)"
       "header ! 27 = word_of_int (int n div 65536)"
       "header ! 28 = word_of_int (int n div 256)"
       "header ! 29 = word_of_int (int n)"
    by (simp add: snd_eval)
  have "getUint32 header 26 False =
        Inr (16777216 * (n div 16777216 mod 256) + 65536 * (n div 65536 mod 256)
             + 256 * (n div 256 mod 256) + n mod 256)"
    by (simp add: getUint32_def l c unat_byte_div unat_of_nat)
  then have "getUint32 header 26 False = Inr (n mod 4294967296)"
    by (simp only: be32_roundtrip)
  then show ?thesis using h l b by simp
qed

lemma length_int16ArrayBuffer: "length (int16ArrayBuffer le xs) = 2 * length xs"
  by (induction xs) (auto simp: int16ArrayBuffer_def int16Bytes_def)

lemma c3_pcm: "pcmData id c3_audio = [32767]"
  by (simp add: pcmData_def monoData_def c3_audio_def toInt16_def)

text \<open>
  Claim C3, amended. For every decoded audio buffer, convertToSnd gives a 192-byte header
  followed by the mono samples as 16-bit signed PCM in the byte order of the host's typed
  arrays (the bytes of the Int16Array's buffer), which is little-endian on the hosts the
  application runs on, not big-endian. In the header, byte 0 is 3, byte 15 is 128, byte 19
  is 2, bytes 22 to 25 are 0, 8, 2, 0, and bytes 26 to 29 hold the number of samples as a
  big-endian 32-bit value.
\<close>

theorem convertToSnd_layout:
  "\<exists>header. convertToSnd fround platformLittleEndian audioBuffer fileName =
       Inr (header @ int16ArrayBuffer platformLittleEndian (pcmData fround audioBuffer)) \<and>
     length header = 192 \<and> header ! 0 = 3 \<and> header ! 15 = 128 \<and> header ! 19 = 2 \<and>
     [header ! 22, header ! 23, header ! 24, header ! 25] = [0, 8, 2, 0] \<and>
     getUint32 header 26 False = Inr (length (pcmData fround audioBuffer) mod 4294967296) \<and>
     int16ArrayBuffer platformLittleEndian (pcmData fround audioBuffer) =
       concat (map (\<lambda>v. if platformLittleEndian
                          then [word_of_int v, word_of_int (v div 256)]
                          else [word_of_int (v div 256), word_of_int v])
                   (pcmData fround audioBuffer))"
proof -
  obtain header where
    "sndHeader audioBuffer fileName (length (pcmData fround audioBuffer)) = Inr header"
    "length header = 192" "header ! 0 = 3" "header ! 15 = 128" "header ! 19 = 2"
    "[header ! 22, header ! 23, header ! 24, header ! 25] = [0, 8, 2, 0]"
    "getUint32 header 26 False = Inr (length (pcmData fround audioBuffer) mod 4294967296)"
    using sndHeader_layout by blast
  moreover have "int16ArrayBuffer platformLittleEndian (pcmData fround audioBuffer) =
       concat (map (\<lambda>v. if platformLittleEndian
                          then [word_of_int v, word_of_int (v div 256)]
                          else [word_of_int (v div 256), word_of_int v])
                   (pcmData fround audioBuffer))"
    by (simp add: int16ArrayBuffer_def int16Bytes_def[abs_def])
  ultimately show ?thesis by (simp add: convertToSnd_def)
qed

theorem convertToSnd_layout_witness:
  "\<exists>header. convertToSnd id True c3_audio ''tone.wav'' = Inr (header @ [255, 127]) \<and>
     length header = 192 \<and> header ! 0 = 3 \<and> getUint32 header 26 False = Inr 1"
  using convertToSnd_layout[of id True c3_audio "''tone.wav''"]
  by (auto simp: c3_pcm int16ArrayBuffer_def int16Bytes_def)

text \<open>
  The claim as it was stated fails on a little-endian host: the one sample 1.0 becomes the
  PCM value 32767, stored as the bytes FF 7F after the header; big-endian would be 7F FF.
\<close>

theorem convertToSnd_layout_counterexample:
  "map_sum id (drop 192) (convertToSnd id True c3_audio ''tone.wav'') = Inr [255, 127] \<and>
   int16ArrayBuffer False (pcmData id c3_audio) = [127, 255]"
proof -
  obtain header where h: "convertToSnd id True c3_audio ''tone.wav'' =
       Inr (header @ int16ArrayBuffer True (pcmData id c3_audio))" "length header = 192"
    using sndHeader_layout[of c3_audio "''tone.wav''" "length (pcmData id c3_audio)"]
    by (auto simp: convertToSnd_def)
  show ?thesis
    by (simp add: h c3_pcm int16ArrayBuffer_def int16Bytes_def)
qed

end
